theory Spec2Isabelle
  imports Complex_Main
begin

section \<open>Host values\<close>

text \<open>
  The interpreter of \<^verbatim>\<open>jscheme.js\<close> represents Scheme data by JavaScript values:
  a number, a boolean, a string (a symbol), \<^verbatim>\<open>null\<close> (the empty list),
  \<^verbatim>\<open>undefined\<close>, a \<^verbatim>\<open>Cons\<close> object, a function, or a \<^verbatim>\<open>Thunk\<close>.

  A JavaScript number is an IEEE 754 binary64 value. It is modelled by its exact
  rational value, with the four special values kept apart; every operation rounds its
  exact result to the nearest binary64 value, ties to even (\<open>round64\<close>).
\<close>

datatype jsnum = NaN | PosInf | NegInf | NegZero | Fin rat

fun ilog2 :: "nat \<Rightarrow> nat" where
  "ilog2 n = (if n < 2 then 0 else Suc (ilog2 (n div 2)))"

declare ilog2.simps [simp del]

definition pow2 :: "int \<Rightarrow> rat" where
  "pow2 e = (if 0 \<le> e then 2 ^ nat e else 1 / 2 ^ nat (- e))"

definition pow10 :: "int \<Rightarrow> rat" where
  "pow10 e = (if 0 \<le> e then 10 ^ nat e else 1 / 10 ^ nat (- e))"

text \<open>The binary exponent of a positive rational \<open>a\<close>: the \<open>e\<close> with \<open>2^e \<le> a < 2^(e+1)\<close>.\<close>

definition fl_exponent :: "rat \<Rightarrow> int" where
  "fl_exponent a =
     (if 1 \<le> a then int (ilog2 (nat \<lfloor>a\<rfloor>))
      else - int (Suc (ilog2 (nat (\<lceil>1 / a\<rceil> - 1)))))"

definition round_half_even :: "rat \<Rightarrow> int" where
  "round_half_even r =
     (let f = \<lfloor>r\<rfloor>; d = r - of_int f
      in if d < 1 / 2 then f else if 1 / 2 < d then f + 1 else if even f then f else f + 1)"

text \<open>
  Rounding to binary64: 53 significant bits, exponents from \<open>-1022\<close> (below it the
  spacing stays \<open>2^-1074\<close>, the subnormal range), overflow to an infinity from
  \<open>2^1024\<close> on.
\<close>

definition round64 :: "rat \<Rightarrow> jsnum" where
  "round64 q =
     (if q = 0 then Fin 0
      else
        let a = \<bar>q\<bar>;
            e = max (fl_exponent a) (- 1022);
            u = pow2 (e - 52);
            m = round_half_even (a / u);
            r = of_int m * u
        in if pow2 1024 \<le> r then (if q < 0 then NegInf else PosInf)
           else if m = 0 then (if q < 0 then NegZero else Fin 0)
           else Fin (if q < 0 then - r else r))"

definition fl_is_zero :: "jsnum \<Rightarrow> bool" where
  "fl_is_zero x = (x = NegZero \<or> x = Fin 0)"

definition fl_is_inf :: "jsnum \<Rightarrow> bool" where
  "fl_is_inf x = (x = PosInf \<or> x = NegInf)"

fun fl_negative :: "jsnum \<Rightarrow> bool" where
  "fl_negative NegInf = True"
| "fl_negative NegZero = True"
| "fl_negative (Fin q) = (q < 0)"
| "fl_negative _ = False"

fun fl_value :: "jsnum \<Rightarrow> rat" where
  "fl_value (Fin q) = q"
| "fl_value _ = 0"

definition fl_signed_inf :: "bool \<Rightarrow> jsnum" where
  "fl_signed_inf neg = (if neg then NegInf else PosInf)"

definition fl_signed_zero :: "bool \<Rightarrow> jsnum" where
  "fl_signed_zero neg = (if neg then NegZero else Fin 0)"

fun fl_neg :: "jsnum \<Rightarrow> jsnum" where
  "fl_neg NaN = NaN"
| "fl_neg PosInf = NegInf"
| "fl_neg NegInf = PosInf"
| "fl_neg NegZero = Fin 0"
| "fl_neg (Fin q) = (if q = 0 then NegZero else Fin (- q))"

text \<open>The operators \<^verbatim>\<open>+ - * /\<close> on two numbers (ECMAScript Number::add and so on).\<close>

fun fl_add :: "jsnum \<Rightarrow> jsnum \<Rightarrow> jsnum" where
  "fl_add NaN _ = NaN"
| "fl_add _ NaN = NaN"
| "fl_add PosInf NegInf = NaN"
| "fl_add NegInf PosInf = NaN"
| "fl_add PosInf _ = PosInf"
| "fl_add _ PosInf = PosInf"
| "fl_add NegInf _ = NegInf"
| "fl_add _ NegInf = NegInf"
| "fl_add NegZero y = y"
| "fl_add x NegZero = x"
| "fl_add (Fin p) (Fin q) = round64 (p + q)"

definition fl_sub :: "jsnum \<Rightarrow> jsnum \<Rightarrow> jsnum" where
  "fl_sub x y = fl_add x (fl_neg y)"

definition fl_mul :: "jsnum \<Rightarrow> jsnum \<Rightarrow> jsnum" where
  "fl_mul x y =
     (if x = NaN \<or> y = NaN then NaN
      else if (fl_is_inf x \<and> fl_is_zero y) \<or> (fl_is_zero x \<and> fl_is_inf y) then NaN
      else if fl_is_inf x \<or> fl_is_inf y then fl_signed_inf (fl_negative x \<noteq> fl_negative y)
      else if fl_is_zero x \<or> fl_is_zero y then fl_signed_zero (fl_negative x \<noteq> fl_negative y)
      else round64 (fl_value x * fl_value y))"

definition fl_div :: "jsnum \<Rightarrow> jsnum \<Rightarrow> jsnum" where
  "fl_div x y =
     (if x = NaN \<or> y = NaN then NaN
      else if (fl_is_inf x \<and> fl_is_inf y) \<or> (fl_is_zero x \<and> fl_is_zero y) then NaN
      else if fl_is_inf x \<or> fl_is_zero y then fl_signed_inf (fl_negative x \<noteq> fl_negative y)
      else if fl_is_inf y \<or> fl_is_zero x then fl_signed_zero (fl_negative x \<noteq> fl_negative y)
      else round64 (fl_value x / fl_value y))"

text \<open>Comparison of two numbers: \<^verbatim>\<open>===\<close> and \<^verbatim>\<open><\<close>. \<open>NaN\<close> compares false, the zeros are equal.\<close>

fun fl_eq :: "jsnum \<Rightarrow> jsnum \<Rightarrow> bool" where
  "fl_eq NaN _ = False"
| "fl_eq _ NaN = False"
| "fl_eq x y = ((fl_is_zero x \<and> fl_is_zero y) \<or> x = y)"

fun fl_lt :: "jsnum \<Rightarrow> jsnum \<Rightarrow> bool" where
  "fl_lt NaN _ = False"
| "fl_lt _ NaN = False"
| "fl_lt PosInf _ = False"
| "fl_lt _ NegInf = False"
| "fl_lt _ PosInf = True"
| "fl_lt NegInf _ = True"
| "fl_lt x y = (fl_value x < fl_value y)"

text \<open>
  The seven primitives of the global environment (\<^verbatim>\<open>repl\<close>, lines 202 to 208), and the
  values. A closure is the function object made by the \<^verbatim>\<open>lambda\<close> case: it captures
  \<^verbatim>\<open>args\<close> (the rest of the lambda expression) and \<^verbatim>\<open>env\<close>, a reference to an
  environment. A \<^verbatim>\<open>Thunk\<close> holds one of the three arrow functions of
  \<^verbatim>\<open>evaluateWithTailCall\<close>, kept by what it captures: \<open>ThunkIf args env\<close> (line 154),
  \<open>ThunkBegin expressions env\<close> (line 177) and \<open>ThunkApply proc evaluatedArgs\<close> (line 192).
\<close>

datatype prim = Add | Sub | Mul | Div | NumEq | Lt | Gt

datatype "value" =
    Number jsnum
  | Boolean bool
  | Symbol string
  | Empty
  | Undefined
  | Pair "value" "value"
  | Primitive prim
  | Closure "value" nat
  | ThunkIf "value" nat
  | ThunkBegin "value" nat
  | ThunkApply "value" "value list"

fun is_Thunk :: "value \<Rightarrow> bool" where
  "is_Thunk (ThunkIf _ _) = True"
| "is_Thunk (ThunkBegin _ _) = True"
| "is_Thunk (ThunkApply _ _) = True"
| "is_Thunk _ = False"

fun is_function :: "value \<Rightarrow> bool" where
  "is_function (Primitive _) = True"
| "is_function (Closure _ _) = True"
| "is_function _ = False"

text \<open>
  Every \<^verbatim>\<open>throw\<close> of the source is an error value. \<open>TypeError\<close> is the host's error
  for reading a property of \<^verbatim>\<open>null\<close> or \<^verbatim>\<open>undefined\<close>, \<open>RangeError\<close> the host's
  error for an exhausted call stack. \<open>Unmodelled\<close> marks the host coercions this model
  does not follow (arithmetic on strings and objects, identity of objects).
\<close>

datatype error =
    UnexpectedEndOfInput
  | UnmatchedParenthesis
  | UnexpectedClosingParenthesis
  | UnexpectedExtraInput
  | UndefinedVariable "value"
  | NotAFunction "value"
  | TypeError
  | RangeError
  | Unmodelled

section \<open>Reader\<close>

subsection \<open>Strings\<close>

text \<open>
  A JavaScript string is a sequence of code units; a \<^typ>\<open>char\<close> here is one code unit
  below 256. \<open>is_space\<close> is the class \<^verbatim>\<open>\s\<close> of regular expressions there, which is
  also what \<^verbatim>\<open>trim\<close> removes: tab, line feed, vertical tab, form feed, carriage
  return, space and the no-break space.
\<close>

definition is_space :: "char \<Rightarrow> bool" where
  "is_space c = (of_char c \<in> {9, 10, 11, 12, 13, 32, 160 :: nat})"

definition is_digit :: "char \<Rightarrow> bool" where
  "is_digit c = (48 \<le> (of_char c :: nat) \<and> (of_char c :: nat) \<le> 57)"

definition digits_value :: "string \<Rightarrow> nat" where
  "digits_value ds = foldl (\<lambda>a c. 10 * a + (of_char c - 48)) 0 ds"

text \<open>\<^verbatim>\<open>s.replace(/c/g, r)\<close> for a single character \<open>c\<close>.\<close>

definition replace_all :: "char \<Rightarrow> string \<Rightarrow> string \<Rightarrow> string" where
  "replace_all c r s = concat (map (\<lambda>x. if x = c then r else [x]) s)"

definition trim :: "string \<Rightarrow> string" where
  "trim s = rev (dropWhile is_space (rev (dropWhile is_space s)))"

text \<open>
  \<^verbatim>\<open>s.split(/\s+/)\<close>: the pieces between the maximal runs of white space. The empty
  string gives one empty piece, and white space at either end gives an empty piece there.
\<close>

function split_ws :: "string \<Rightarrow> string list" where
  "split_ws s =
     (let w = takeWhile (\<lambda>c. \<not> is_space c) s; r = dropWhile (\<lambda>c. \<not> is_space c) s
      in if r = [] then [w] else w # split_ws (dropWhile is_space r))"
  by pat_completeness auto
termination
proof (relation "measure length")
  fix s :: string and w r
  assume r: "r = dropWhile (\<lambda>c. \<not> is_space c) s" and ne: "r \<noteq> []"
  from ne have "is_space (hd r)"
    unfolding r using hd_dropWhile [of "\<lambda>c. \<not> is_space c" s] by auto
  with ne have "length (dropWhile is_space r) < length r"
    by (cases r) (auto simp: le_imp_less_Suc length_dropWhile_le)
  moreover have "length r \<le> length s"
    unfolding r by (rule length_dropWhile_le)
  ultimately show "(dropWhile is_space r, s) \<in> measure length"
    by simp
qed simp

declare split_ws.simps [simp del]

subsection \<open>Tokenizer\<close>

definition tokenize :: "string \<Rightarrow> string list" where
  "tokenize input =
     split_ws (trim (replace_all (CHR '')'') '' ) '' (replace_all (CHR ''('') '' ( '' input)))"

subsection \<open>Atoms\<close>

text \<open>
  \<^verbatim>\<open>parseFloat\<close> is a host function, modelled from its ECMAScript definition: skip
  leading white space, take the longest prefix that is a decimal literal
  (an optional sign, then \<^verbatim>\<open>Infinity\<close> or digits with an optional fraction and an
  optional exponent), and return its value rounded to binary64, or \<open>NaN\<close> when no
  prefix is a literal.
\<close>

definition exponent_part :: "string \<Rightarrow> int" where
  "exponent_part r =
     (case r of
        [] \<Rightarrow> 0
      | c # rest \<Rightarrow>
          if c = CHR ''e'' \<or> c = CHR ''E'' then
            (let neg = (rest \<noteq> [] \<and> hd rest = CHR ''-'');
                 ds = (if rest \<noteq> [] \<and> (hd rest = CHR ''+'' \<or> hd rest = CHR ''-'') then tl rest else rest);
                 ed = takeWhile is_digit ds
             in if ed = [] then 0
                else if neg then - int (digits_value ed) else int (digits_value ed))
          else 0)"

definition str_unsigned_decimal :: "string \<Rightarrow> jsnum option" where
  "str_unsigned_decimal s =
     (if take 8 s = ''Infinity'' then Some PosInf
      else
        let ip = takeWhile is_digit s;
            r1 = dropWhile is_digit s;
            has_dot = (r1 \<noteq> [] \<and> hd r1 = CHR ''.'');
            fp = (if has_dot then takeWhile is_digit (tl r1) else []);
            r2 = (if has_dot then dropWhile is_digit (tl r1) else r1)
        in if ip = [] \<and> fp = [] then None
           else Some (round64 (of_nat (digits_value (ip @ fp))
                                * pow10 (exponent_part r2 - int (length fp)))))"

definition parseFloat :: "string \<Rightarrow> jsnum" where
  "parseFloat s =
     (let t = dropWhile is_space s
      in if t \<noteq> [] \<and> hd t = CHR ''+'' then
           (case str_unsigned_decimal (tl t) of None \<Rightarrow> NaN | Some n \<Rightarrow> n)
         else if t \<noteq> [] \<and> hd t = CHR ''-'' then
           (case str_unsigned_decimal (tl t) of None \<Rightarrow> NaN | Some n \<Rightarrow> fl_neg n)
         else (case str_unsigned_decimal t of None \<Rightarrow> NaN | Some n \<Rightarrow> n))"

definition parseAtom :: "string \<Rightarrow> value" where
  "parseAtom token =
     (if token = ''#t'' \<or> token = ''#f'' then Boolean (token = ''#t'')
      else
        let number = parseFloat token
        in if number \<noteq> NaN then Number number else Symbol token)"

subsection \<open>Parser\<close>

fun arrayToLinkedList :: "value list \<Rightarrow> value" where
  "arrayToLinkedList [] = Empty"
| "arrayToLinkedList (x # xs) = Pair x (arrayToLinkedList xs)"

text \<open>\<^verbatim>\<open>tokens[position]\<close>: \<open>None\<close> is \<^verbatim>\<open>undefined\<close>, the read past the end.\<close>

definition token_at :: "string list \<Rightarrow> nat \<Rightarrow> string option" where
  "token_at tokens position = (if position < length tokens then Some (tokens ! position) else None)"

text \<open>
  \<^verbatim>\<open>parseExpression\<close> reads the token at the cursor and advances it; its
  \<^verbatim>\<open>while\<close> loop over the elements of a list is \<open>parseList\<close>, which returns the
  elements and the position of the closing parenthesis. The cursor \<^verbatim>\<open>position\<close> is
  passed in and returned. The first argument is fuel: every call and every iteration
  uses one unit, and \<open>None\<close> is the result when it runs out.
\<close>

fun parseExpression :: "nat \<Rightarrow> string list \<Rightarrow> nat \<Rightarrow> (error + value \<times> nat) option"
  and parseList :: "nat \<Rightarrow> string list \<Rightarrow> nat \<Rightarrow> value list \<Rightarrow> (error + value list \<times> nat) option"
where
  "parseExpression 0 tokens position = None"
| "parseExpression (Suc n) tokens position =
     (case token_at tokens position of
        None \<Rightarrow> Some (Inl UnexpectedEndOfInput)
      | Some token \<Rightarrow>
          if token = ''('' then
            (case parseList n tokens (position + 1) [] of
               None \<Rightarrow> None
             | Some (Inl e) \<Rightarrow> Some (Inl e)
             | Some (Inr (list, p)) \<Rightarrow> Some (Inr (arrayToLinkedList list, p + 1)))
          else if token = '')'' then Some (Inl UnexpectedClosingParenthesis)
          else if token = [CHR 0x27] then
            (case parseExpression n tokens (position + 1) of
               None \<Rightarrow> None
             | Some (Inl e) \<Rightarrow> Some (Inl e)
             | Some (Inr (quoted, p)) \<Rightarrow>
                 Some (Inr (Pair (Symbol ''quote'') (Pair quoted Empty), p)))
          else Some (Inr (parseAtom token, position + 1)))"
| "parseList 0 tokens position list = None"
| "parseList (Suc n) tokens position list =
     (if token_at tokens position \<noteq> Some '')'' then
        (if token_at tokens position = None then Some (Inl UnmatchedParenthesis)
         else
           (case parseExpression n tokens position of
              None \<Rightarrow> None
            | Some (Inl e) \<Rightarrow> Some (Inl e)
            | Some (Inr (x, p)) \<Rightarrow> parseList n tokens p (list @ [x])))
      else Some (Inr (list, position)))"

text \<open>
  \<^verbatim>\<open>parse\<close>: one expression, then the check that the cursor is at the end. The fuel
  \<open>2 * length tokens + 1\<close> is enough for every input (\<open>parse_returns\<close> below).
\<close>

definition parse :: "string \<Rightarrow> (error + value) option" where
  "parse input =
     (let tokens = tokenize input
      in case parseExpression (2 * length tokens + 1) tokens 0 of
           None \<Rightarrow> None
         | Some (Inl e) \<Rightarrow> Some (Inl e)
         | Some (Inr (result, position)) \<Rightarrow>
             if position \<noteq> length tokens then Some (Inl UnexpectedExtraInput)
             else Some (Inr result))"

section \<open>Environment\<close>

text \<open>
  An \<^verbatim>\<open>Environment\<close> object has a \<^verbatim>\<open>Map\<close> \<^verbatim>\<open>vars\<close> and a reference
  \<^verbatim>\<open>parent\<close>. Environments are shared and mutated, so they live in a heap: a list of
  frames, and a reference is an index into it. A \<^verbatim>\<open>Map\<close> keeps its entries in the order
  of insertion; \<open>map_set\<close> is \<^verbatim>\<open>Map.prototype.set\<close> (replace the value of a key that is
  there, append a new key), and \<^verbatim>\<open>has\<close> and \<^verbatim>\<open>get\<close> are \<^const>\<open>map_of\<close>. Keys are
  values; the interpreter only ever looks strings up.
\<close>

record environment =
  vars :: "(value \<times> value) list"
  parent :: "nat option"

type_synonym heap = "environment list"

fun map_set :: "('k \<times> 'v) list \<Rightarrow> 'k \<Rightarrow> 'v \<Rightarrow> ('k \<times> 'v) list" where
  "map_set [] k v = [(k, v)]"
| "map_set ((k', v') # m) k v = (if k' = k then (k', v) # m else (k', v') # map_set m k v)"

text \<open>\<^verbatim>\<open>new Environment(parent)\<close>: a fresh frame at the end of the heap.\<close>

definition new_Environment :: "nat option \<Rightarrow> heap \<Rightarrow> nat \<times> heap" where
  "new_Environment p h = (length h, h @ [\<lparr>vars = [], parent = p\<rparr>])"

text \<open>
  \<^verbatim>\<open>lookup\<close> follows the parent references. A chain of parents that never ends has
  no result (\<open>None\<close>); a reference to no frame is the host's \<open>TypeError\<close>.
\<close>

partial_function (option) lookup :: "heap \<Rightarrow> nat \<Rightarrow> value \<Rightarrow> (error + value) option" where
  "lookup h env symbol =
     (if env < length h then
        (case map_of (vars (h ! env)) symbol of
           Some v \<Rightarrow> Some (Inr v)
         | None \<Rightarrow>
             (case parent (h ! env) of
                Some p \<Rightarrow> lookup h p symbol
              | None \<Rightarrow> Some (Inl (UndefinedVariable symbol))))
      else Some (Inl TypeError))"

text \<open>\<^verbatim>\<open>Environment.define\<close> (\<open>define\<close> is a keyword here).\<close>

definition env_define :: "nat \<Rightarrow> value \<Rightarrow> value \<Rightarrow> heap \<Rightarrow> heap" where
  "env_define env symbol v h = h[env := (h ! env)\<lparr>vars := map_set (vars (h ! env)) symbol v\<rparr>]"

section \<open>Evaluator\<close>

subsection \<open>Primitives\<close>

text \<open>
  The arrow functions \<^verbatim>\<open>(a, b) => a + b\<close> and so on. A missing argument is
  \<^verbatim>\<open>undefined\<close>, further arguments are ignored. The operators convert booleans,
  \<^verbatim>\<open>null\<close> and \<^verbatim>\<open>undefined\<close> to numbers (\<open>to_number\<close>); on strings and objects the
  host concatenates or parses strings, which is not modelled. \<^verbatim>\<open>===\<close> converts nothing;
  on two objects of one kind it compares their identity, which is not modelled either.
\<close>

definition arg :: "value list \<Rightarrow> nat \<Rightarrow> value" where
  "arg xs i = (if i < length xs then xs ! i else Undefined)"

fun to_number :: "value \<Rightarrow> jsnum option" where
  "to_number (Number x) = Some x"
| "to_number (Boolean b) = Some (Fin (if b then 1 else 0))"
| "to_number Empty = Some (Fin 0)"
| "to_number Undefined = Some NaN"
| "to_number _ = None"

definition arith :: "(jsnum \<Rightarrow> jsnum \<Rightarrow> jsnum) \<Rightarrow> value \<Rightarrow> value \<Rightarrow> error + value" where
  "arith f a b =
     (case (to_number a, to_number b) of
        (Some x, Some y) \<Rightarrow> Inr (Number (f x y))
      | _ \<Rightarrow> Inl Unmodelled)"

definition compare :: "(jsnum \<Rightarrow> jsnum \<Rightarrow> bool) \<Rightarrow> value \<Rightarrow> value \<Rightarrow> error + value" where
  "compare f a b =
     (case (to_number a, to_number b) of
        (Some x, Some y) \<Rightarrow> Inr (Boolean (f x y))
      | _ \<Rightarrow> Inl Unmodelled)"

definition strict_equal :: "value \<Rightarrow> value \<Rightarrow> error + value" where
  "strict_equal a b =
     (case a of
        Number x \<Rightarrow> (case b of Number y \<Rightarrow> Inr (Boolean (fl_eq x y)) | _ \<Rightarrow> Inr (Boolean False))
      | Boolean p \<Rightarrow> (case b of Boolean q \<Rightarrow> Inr (Boolean (p = q)) | _ \<Rightarrow> Inr (Boolean False))
      | Symbol s \<Rightarrow> (case b of Symbol t \<Rightarrow> Inr (Boolean (s = t)) | _ \<Rightarrow> Inr (Boolean False))
      | Empty \<Rightarrow> Inr (Boolean (b = Empty))
      | Undefined \<Rightarrow> Inr (Boolean (b = Undefined))
      | Primitive p \<Rightarrow> Inr (Boolean (b = Primitive p))
      | Pair _ _ \<Rightarrow> (case b of Pair _ _ \<Rightarrow> Inl Unmodelled | _ \<Rightarrow> Inr (Boolean False))
      | Closure _ _ \<Rightarrow> (case b of Closure _ _ \<Rightarrow> Inl Unmodelled | _ \<Rightarrow> Inr (Boolean False))
      | _ \<Rightarrow> (if is_Thunk b then Inl Unmodelled else Inr (Boolean False)))"

fun apply_prim :: "prim \<Rightarrow> value list \<Rightarrow> error + value" where
  "apply_prim Add xs = arith fl_add (arg xs 0) (arg xs 1)"
| "apply_prim Sub xs = arith fl_sub (arg xs 0) (arg xs 1)"
| "apply_prim Mul xs = arith fl_mul (arg xs 0) (arg xs 1)"
| "apply_prim Div xs = arith fl_div (arg xs 0) (arg xs 1)"
| "apply_prim NumEq xs = strict_equal (arg xs 0) (arg xs 1)"
| "apply_prim Lt xs = compare fl_lt (arg xs 0) (arg xs 1)"
| "apply_prim Gt xs = compare (\<lambda>x y. fl_lt y x) (arg xs 0) (arg xs 1)"

subsection \<open>Property reads and truthiness\<close>

text \<open>
  \<^verbatim>\<open>x.car\<close> and \<^verbatim>\<open>x.cdr\<close>: the field of a \<^verbatim>\<open>Cons\<close>, a \<open>TypeError\<close> on
  \<^verbatim>\<open>null\<close> and \<^verbatim>\<open>undefined\<close>, and \<^verbatim>\<open>undefined\<close> on every other value.
\<close>

fun prop_car :: "value \<Rightarrow> error + value" where
  "prop_car (Pair a d) = Inr a"
| "prop_car Empty = Inl TypeError"
| "prop_car Undefined = Inl TypeError"
| "prop_car _ = Inr Undefined"

fun prop_cdr :: "value \<Rightarrow> error + value" where
  "prop_cdr (Pair a d) = Inr d"
| "prop_cdr Empty = Inl TypeError"
| "prop_cdr Undefined = Inl TypeError"
| "prop_cdr _ = Inr Undefined"

definition prop_cadr :: "value \<Rightarrow> error + value" where
  "prop_cadr x = (case prop_cdr x of Inl e \<Rightarrow> Inl e | Inr d \<Rightarrow> prop_car d)"

definition prop_caddr :: "value \<Rightarrow> error + value" where
  "prop_caddr x = (case prop_cdr x of Inl e \<Rightarrow> Inl e | Inr d \<Rightarrow> prop_cadr d)"

text \<open>
  The condition of \<^verbatim>\<open>condition ? a : b\<close> is converted by the host: \<^verbatim>\<open>false\<close>,
  the zeros, \<open>NaN\<close>, the empty string, \<^verbatim>\<open>null\<close> and \<^verbatim>\<open>undefined\<close> are false, every
  other value is true.
\<close>

fun truthy :: "value \<Rightarrow> bool" where
  "truthy (Boolean b) = b"
| "truthy (Number x) = (x \<noteq> NaN \<and> \<not> fl_is_zero x)"
| "truthy (Symbol s) = (s \<noteq> [])"
| "truthy Empty = False"
| "truthy Undefined = False"
| "truthy _ = True"

subsection \<open>Closures\<close>

text \<open>
  The \<^verbatim>\<open>params.forEach\<close> of a closure: for each actual argument, define the name
  \<^verbatim>\<open>paramList.car\<close> in the new environment and step to \<^verbatim>\<open>paramList.cdr\<close>.
\<close>

fun bind_params :: "nat \<Rightarrow> value \<Rightarrow> value list \<Rightarrow> heap \<Rightarrow> (error + unit) \<times> heap" where
  "bind_params newEnv paramList [] h = (Inr (), h)"
| "bind_params newEnv paramList (param # params) h =
     (case prop_car paramList of
        Inl e \<Rightarrow> (Inl e, h)
      | Inr name \<Rightarrow>
          (case prop_cdr paramList of
             Inl e \<Rightarrow> (Inl e, env_define newEnv name param h)
           | Inr rest \<Rightarrow> bind_params newEnv rest params (env_define newEnv name param h)))"

subsection \<open>The trampolined evaluator\<close>

text \<open>
  A result is \<open>None\<close> when the fuel of a trampoline loop runs out, and otherwise the
  heap as the call left it with either the error thrown or the value returned.

  The first argument \<open>d\<close> of each function is the native call stack that is left,
  counted in nested calls of \<^verbatim>\<open>evaluate\<close>: every cycle of calls among
  \<^verbatim>\<open>evaluate\<close>, \<^verbatim>\<open>trampoline\<close>, a thunk's function, a closure and
  \<^verbatim>\<open>evaluateWithTailCall\<close> passes through \<^verbatim>\<open>evaluate\<close>, so the native stack is
  at most a constant number of frames for each nested \<^verbatim>\<open>evaluate\<close>. At \<open>d = 0\<close>
  the call throws the host's \<open>RangeError\<close>. The second argument \<open>K\<close> is the fuel each
  \<^verbatim>\<open>while\<close> loop of \<^verbatim>\<open>trampoline\<close> starts with, and \<open>k\<close> what is left of it.

  \<open>run_thunk\<close> is \<^verbatim>\<open>result.func()\<close>, \<open>call_proc\<close> is \<^verbatim>\<open>proc(...evaluatedArgs)\<close>,
  \<open>begin_loop\<close> and \<open>args_loop\<close> are the \<^verbatim>\<open>while\<close> loops of the cases
  \<^verbatim>\<open>begin\<close> and \<^verbatim>\<open>default\<close>.
\<close>

type_synonym 'a result = "((error + 'a) \<times> heap) option"

function evaluate :: "nat \<Rightarrow> nat \<Rightarrow> value \<Rightarrow> nat \<Rightarrow> heap \<Rightarrow> value result"
  and evaluateWithTailCall :: "nat \<Rightarrow> nat \<Rightarrow> value \<Rightarrow> nat \<Rightarrow> heap \<Rightarrow> value result"
  and trampoline :: "nat \<Rightarrow> nat \<Rightarrow> nat \<Rightarrow> value \<Rightarrow> heap \<Rightarrow> value result"
  and run_thunk :: "nat \<Rightarrow> nat \<Rightarrow> value \<Rightarrow> heap \<Rightarrow> value result"
  and call_proc :: "nat \<Rightarrow> nat \<Rightarrow> value \<Rightarrow> value list \<Rightarrow> heap \<Rightarrow> value result"
  and begin_loop :: "nat \<Rightarrow> nat \<Rightarrow> value \<Rightarrow> value \<Rightarrow> nat \<Rightarrow> heap \<Rightarrow> value result"
  and args_loop :: "nat \<Rightarrow> nat \<Rightarrow> value \<Rightarrow> value list \<Rightarrow> nat \<Rightarrow> heap \<Rightarrow> (value list) result"
where
  "evaluate d K expr env h =
     (case d of
        0 \<Rightarrow> Some (Inl RangeError, h)
      | Suc d' \<Rightarrow>
          (case evaluateWithTailCall d' K expr env h of
             None \<Rightarrow> None
           | Some (Inl e, h') \<Rightarrow> Some (Inl e, h')
           | Some (Inr r, h') \<Rightarrow> trampoline d' K K r h'))"
| "trampoline d K k result h =
     (if is_Thunk result then
        (case k of
           0 \<Rightarrow> None
         | Suc k' \<Rightarrow>
             (case run_thunk d K result h of
                None \<Rightarrow> None
              | Some (Inl e, h') \<Rightarrow> Some (Inl e, h')
              | Some (Inr r, h') \<Rightarrow> trampoline d K k' r h'))
      else Some (Inr result, h))"
| "run_thunk d K thunk h =
     (case thunk of
        ThunkIf args env \<Rightarrow>
          (case prop_car args of
             Inl e \<Rightarrow> Some (Inl e, h)
           | Inr c \<Rightarrow>
               (case evaluate d K c env h of
                  None \<Rightarrow> None
                | Some (Inl e, h') \<Rightarrow> Some (Inl e, h')
                | Some (Inr condition, h') \<Rightarrow>
                    (case (if truthy condition then prop_cadr args else prop_caddr args) of
                       Inl e \<Rightarrow> Some (Inl e, h')
                     | Inr branch \<Rightarrow> evaluateWithTailCall d K branch env h')))
      | ThunkBegin expressions env \<Rightarrow>
          (case prop_car expressions of
             Inl e \<Rightarrow> Some (Inl e, h)
           | Inr x \<Rightarrow> evaluateWithTailCall d K x env h)
      | ThunkApply proc evaluatedArgs \<Rightarrow> call_proc d K proc evaluatedArgs h
      | _ \<Rightarrow> Some (Inl TypeError, h))"
| "call_proc d K proc params h =
     (case proc of
        Primitive p \<Rightarrow> Some (apply_prim p params, h)
      | Closure args env \<Rightarrow>
          (let (newEnv, h1) = new_Environment (Some env) h
           in case prop_car args of
                Inl e \<Rightarrow> Some (Inl e, h1)
              | Inr paramList \<Rightarrow>
                  (case bind_params newEnv paramList params h1 of
                     (Inl e, h2) \<Rightarrow> Some (Inl e, h2)
                   | (Inr _, h2) \<Rightarrow>
                       (case prop_cadr args of
                          Inl e \<Rightarrow> Some (Inl e, h2)
                        | Inr body \<Rightarrow> evaluateWithTailCall d K body newEnv h2)))
      | _ \<Rightarrow> Some (Inl TypeError, h))"
| "evaluateWithTailCall d K expr env h =
     (case expr of
        Symbol s \<Rightarrow> (case lookup h env expr of None \<Rightarrow> None | Some r \<Rightarrow> Some (r, h))
      | Pair op args \<Rightarrow>
          if op = Symbol ''quote'' then
            (case prop_car args of Inl e \<Rightarrow> Some (Inl e, h) | Inr x \<Rightarrow> Some (Inr x, h))
          else if op = Symbol ''if'' then Some (Inr (ThunkIf args env), h)
          else if op = Symbol ''lambda'' then Some (Inr (Closure args env), h)
          else if op = Symbol ''define'' then
            (case prop_car args of
               Inl e \<Rightarrow> Some (Inl e, h)
             | Inr name \<Rightarrow>
                 (case prop_cadr args of
                    Inl e \<Rightarrow> Some (Inl e, h)
                  | Inr x \<Rightarrow>
                      (case evaluate d K x env h of
                         None \<Rightarrow> None
                       | Some (Inl e, h') \<Rightarrow> Some (Inl e, h')
                       | Some (Inr v, h') \<Rightarrow> Some (Inr Undefined, env_define env name v h'))))
          else if op = Symbol ''begin'' then begin_loop d K args Undefined env h
          else
            (case evaluate d K op env h of
               None \<Rightarrow> None
             | Some (Inl e, h1) \<Rightarrow> Some (Inl e, h1)
             | Some (Inr proc, h1) \<Rightarrow>
                 (case args_loop d K args [] env h1 of
                    None \<Rightarrow> None
                  | Some (Inl e, h2) \<Rightarrow> Some (Inl e, h2)
                  | Some (Inr evaluatedArgs, h2) \<Rightarrow>
                      if is_function proc then Some (Inr (ThunkApply proc evaluatedArgs), h2)
                      else Some (Inl (NotAFunction op), h2)))
      | _ \<Rightarrow> Some (Inr expr, h))"
| "begin_loop d K expressions result env h =
     (case expressions of
        Pair x rest \<Rightarrow>
          if rest = Empty then Some (Inr (ThunkBegin expressions env), h)
          else
            (case evaluate d K x env h of
               None \<Rightarrow> None
             | Some (Inl e, h') \<Rightarrow> Some (Inl e, h')
             | Some (Inr r, h') \<Rightarrow> begin_loop d K rest r env h')
      | _ \<Rightarrow> Some (Inr result, h))"
| "args_loop d K argList evaluatedArgs env h =
     (case argList of
        Pair x rest \<Rightarrow>
          (case evaluate d K x env h of
             None \<Rightarrow> None
           | Some (Inl e, h') \<Rightarrow> Some (Inl e, h')
           | Some (Inr v, h') \<Rightarrow> args_loop d K rest (evaluatedArgs @ [v]) env h')
      | _ \<Rightarrow> Some (Inr evaluatedArgs, h))"
  by pat_completeness auto
termination
  by (relation "inv_image (less_than <*lex*> less_than <*lex*> less_than)
        (\<lambda>x. case x of
           Inl (Inl (d, K, expr, env, h)) \<Rightarrow> (d, 0, 0)
         | Inl (Inr (Inl (d, K, expr, env, h))) \<Rightarrow> (d, 2, 0)
         | Inl (Inr (Inr (d, K, k, r, h))) \<Rightarrow> (d, 5, k)
         | Inr (Inl (Inl (d, K, t, h))) \<Rightarrow> (d, 4, 0)
         | Inr (Inl (Inr (d, K, p, xs, h))) \<Rightarrow> (d, 3, 0)
         | Inr (Inr (Inl (d, K, xs, r, env, h))) \<Rightarrow> (d, 1, size xs)
         | Inr (Inr (Inr (d, K, xs, acc, env, h))) \<Rightarrow> (d, 1, size xs))")
    auto

declare evaluate.simps [simp del] evaluateWithTailCall.simps [simp del]
  trampoline.simps [simp del] run_thunk.simps [simp del] call_proc.simps [simp del]
  begin_loop.simps [simp del] args_loop.simps [simp del]

subsection \<open>The read-eval-print loop\<close>

text \<open>
  \<^verbatim>\<open>repl\<close> makes the global environment, the first frame of the heap, and defines the
  seven primitives in it. Each turn of its loop parses one input and evaluates the
  result in the global environment (\<open>repl_step\<close>); what is thrown is caught and
  reported, which here is the error returned.
\<close>

definition globalEnv :: heap where
  "globalEnv =
     (let (g, h) = new_Environment None []
      in foldl (\<lambda>h (s, p). env_define g (Symbol s) (Primitive p) h) h
           [(''+'', Add), (''-'', Sub), (''*'', Mul), (''/'', Div),
            (''='', NumEq), (''<'', Lt), (''>'', Gt)])"

definition repl_step :: "nat \<Rightarrow> nat \<Rightarrow> string \<Rightarrow> heap \<Rightarrow> value result" where
  "repl_step d K input h =
     (case parse input of
        None \<Rightarrow> None
      | Some (Inl e) \<Rightarrow> Some (Inl e, h)
      | Some (Inr parsed) \<Rightarrow> evaluate d K parsed 0 h)"

section \<open>Printer\<close>

text \<open>
  \<^verbatim>\<open>printExpr\<close> prints a \<^verbatim>\<open>Cons\<close> as the printed elements of
  \<^verbatim>\<open>linkedListToArray\<close>, joined by single spaces, in parentheses; a string as it is;
  a boolean as \<^verbatim>\<open>#t\<close> or \<^verbatim>\<open>#f\<close>; and every other value by the host's
  \<^verbatim>\<open>String\<close>. \<open>js_String\<close> models the host function where its result is simple:
  an integral number below \<open>2^53\<close> in magnitude is its decimal numeral, \<^verbatim>\<open>null\<close> is
  \<^verbatim>\<open>null\<close>, an object is \<^verbatim>\<open>[object Object]\<close>. It is \<open>None\<close> for the other numbers
  (the host prints the shortest decimal that reads back) and for functions (the host
  prints their source text).
\<close>

fun linkedListToArray :: "value \<Rightarrow> value list" where
  "linkedListToArray (Pair a d) = a # linkedListToArray d"
| "linkedListToArray _ = []"

fun join :: "string \<Rightarrow> string list \<Rightarrow> string" where
  "join sep [] = []"
| "join sep [x] = x"
| "join sep (x # y # ys) = x @ sep @ join sep (y # ys)"

definition digit_char :: "nat \<Rightarrow> char" where
  "digit_char d = ''0123456789'' ! d"

function digits_of :: "nat \<Rightarrow> string" where
  "digits_of n = (if n < 10 then [digit_char n] else digits_of (n div 10) @ [digit_char (n mod 10)])"
  by pat_completeness auto
termination
  by (relation "measure id") auto

declare digits_of.simps [simp del]

definition number_to_string :: "jsnum \<Rightarrow> string option" where
  "number_to_string x =
     (case x of
        NaN \<Rightarrow> Some ''NaN''
      | PosInf \<Rightarrow> Some ''Infinity''
      | NegInf \<Rightarrow> Some ''-Infinity''
      | NegZero \<Rightarrow> Some ''0''
      | Fin q \<Rightarrow>
          if of_int \<lfloor>q\<rfloor> = q \<and> \<bar>q\<bar> < 2 ^ 53
          then Some (if q < 0 then CHR ''-'' # digits_of (nat (- \<lfloor>q\<rfloor>)) else digits_of (nat \<lfloor>q\<rfloor>))
          else None)"

fun js_String :: "value \<Rightarrow> string option" where
  "js_String (Number x) = number_to_string x"
| "js_String (Boolean b) = Some (if b then ''true'' else ''false'')"
| "js_String (Symbol s) = Some s"
| "js_String Empty = Some ''null''"
| "js_String Undefined = Some ''undefined''"
| "js_String (Primitive _) = None"
| "js_String (Closure _ _) = None"
| "js_String _ = Some ''[object Object]''"

function printExpr :: "value \<Rightarrow> string option" where
  "printExpr expr =
     (case expr of
        Pair a d \<Rightarrow>
          (case those (map printExpr (linkedListToArray expr)) of
             None \<Rightarrow> None
           | Some parts \<Rightarrow> Some (''('' @ join '' '' parts @ '')''))
      | Symbol s \<Rightarrow> Some s
      | Boolean b \<Rightarrow> Some (if b then ''#t'' else ''#f'')
      | _ \<Rightarrow> js_String expr)"
  by pat_completeness auto
termination
proof (relation "measure size")
  fix expr a d x
  assume e: "expr = Pair a d" and x: "x \<in> set (linkedListToArray expr)"
  have "y \<in> set (linkedListToArray v) \<Longrightarrow> size y < size v" for y v
    by (induction v rule: linkedListToArray.induct) auto
  from this [OF x] show "(x, expr) \<in> measure size" by simp
qed simp

declare printExpr.simps [simp del]

section \<open>Notions used in the statements\<close>

text \<open>
  A heap is well formed when every parent reference points to an earlier frame, as it
  does in every heap the interpreter builds: \<^verbatim>\<open>new Environment(parent)\<close> is given an
  environment that exists, and no frame's parent is ever assigned again. The ancestors
  of a frame are the frames on its chain of parents.
\<close>

definition wf_heap :: "heap \<Rightarrow> bool" where
  "wf_heap h = (\<forall>i \<in> {..<length h}. case parent (h ! i) of None \<Rightarrow> True | Some p \<Rightarrow> p < i)"

inductive ancestor :: "heap \<Rightarrow> nat \<Rightarrow> nat \<Rightarrow> bool" for h where
  parent: "env < length h \<Longrightarrow> parent (h ! env) = Some p \<Longrightarrow> ancestor h env p"
| grandparent: "ancestor h env a \<Longrightarrow> a < length h \<Longrightarrow> parent (h ! a) = Some p \<Longrightarrow> ancestor h env p"



definition run_defines :: "nat \<Rightarrow> (string \<times> value) list \<Rightarrow> heap \<Rightarrow> heap" where
  "run_defines env defs h = foldl (\<lambda>h x. env_define env (Symbol (fst x)) (snd x) h) h defs"

text \<open>
  A decimal literal as \<^verbatim>\<open>parseFloat\<close> reads it: a sign (empty, \<^verbatim>\<open>+\<close> or \<^verbatim>\<open>-\<close>),
  integer digits, an optional fraction (the digits after the point) and an optional
  exponent (the letter, its sign and its digits). \<open>literal_text\<close> is its text and
  \<open>literal_value\<close> the number it denotes. A rest is non-numeric when it is empty or
  starts with a character that is no digit, point, exponent letter or sign.
\<close>

record decimal_literal =
  l_sign :: string
  l_int :: string
  l_frac :: "string option"
  l_exp :: "(char \<times> string \<times> string) option"

definition all_digits :: "string \<Rightarrow> bool" where
  "all_digits ds = (\<forall>c \<in> set ds. is_digit c)"

definition literal_wf :: "decimal_literal \<Rightarrow> bool" where
  "literal_wf l =
     (l_sign l \<in> {[], ''+'', ''-''}
      \<and> all_digits (l_int l)
      \<and> (case l_frac l of None \<Rightarrow> l_int l \<noteq> [] | Some fp \<Rightarrow> all_digits fp \<and> (l_int l \<noteq> [] \<or> fp \<noteq> []))
      \<and> (case l_exp l of
            None \<Rightarrow> True
          | Some (c, es, ed) \<Rightarrow>
              c \<in> {CHR ''e'', CHR ''E''} \<and> es \<in> {[], ''+'', ''-''} \<and> ed \<noteq> [] \<and> all_digits ed))"

definition exp_text :: "decimal_literal \<Rightarrow> string" where
  "exp_text l = (case l_exp l of None \<Rightarrow> [] | Some (c, es, ed) \<Rightarrow> c # es @ ed)"

definition literal_text :: "decimal_literal \<Rightarrow> string" where
  "literal_text l =
     l_sign l @ l_int l @ (case l_frac l of None \<Rightarrow> [] | Some fp \<Rightarrow> CHR ''.'' # fp) @ exp_text l"

definition unsigned_value :: "decimal_literal \<Rightarrow> jsnum" where
  "unsigned_value l =
     (let fp = (case l_frac l of None \<Rightarrow> [] | Some fp \<Rightarrow> fp);
          ex = (case l_exp l of
                  None \<Rightarrow> 0
                | Some (c, es, ed) \<Rightarrow> if es = ''-'' then - int (digits_value ed) else int (digits_value ed))
      in round64 (of_nat (digits_value (l_int l @ fp)) * pow10 (ex - int (length fp))))"

definition literal_value :: "decimal_literal \<Rightarrow> jsnum" where
  "literal_value l = (if l_sign l = ''-'' then fl_neg (unsigned_value l) else unsigned_value l)"

definition non_numeric_start :: "string \<Rightarrow> bool" where
  "non_numeric_start r =
     (r = [] \<or> \<not> (is_digit (hd r) \<or> hd r \<in> {CHR ''.'', CHR ''e'', CHR ''E'', CHR ''+'', CHR ''-''}))"

text \<open>
  The procedure of \<^verbatim>\<open>(define loop (lambda (n) (if (= n 0) 0 (loop (- n 1)))))\<close>: its
  parts, the closure it evaluates to in the global environment, the heap \<open>loopEnv\<close>
  after the define, and the frame that a call with argument \<open>x\<close> makes. A heap is a
  \<open>loop_heap\<close> when its first frame is the global frame of \<open>loopEnv\<close>.
\<close>

definition loop_cond :: "value" where
  "loop_cond = Pair (Symbol ''='') (Pair (Symbol ''n'') (Pair (Number (Fin 0)) Empty))"

definition loop_rec :: "value" where
  "loop_rec = Pair (Symbol ''loop'')
     (Pair (Pair (Symbol ''-'') (Pair (Symbol ''n'') (Pair (Number (Fin 1)) Empty))) Empty)"

definition loop_body :: "value" where
  "loop_body = Pair (Symbol ''if'') (Pair loop_cond (Pair (Number (Fin 0)) (Pair loop_rec Empty)))"

definition loop_closure :: "value" where
  "loop_closure = Closure (Pair (Pair (Symbol ''n'') Empty) (Pair loop_body Empty)) 0"

definition loopEnv :: heap where
  "loopEnv = env_define 0 (Symbol ''loop'') loop_closure globalEnv"

definition loop_frame :: "jsnum \<Rightarrow> environment" where
  "loop_frame x = \<lparr>vars = [(Symbol ''n'', Number x)], parent = Some 0\<rparr>"

definition loop_heap :: "heap \<Rightarrow> bool" where
  "loop_heap h = (0 < length h \<and> h ! 0 = loopEnv ! 0)"

text \<open>
  The words of a string are its maximal runs of characters that are no white space.
  \<open>tokens_of s\<close> are the words of \<open>s\<close> with each parenthesis padded by spaces.
\<close>

fun words_from :: "string \<Rightarrow> string \<Rightarrow> string list" where
  "words_from cur [] = (if cur = [] then [] else [cur])"
| "words_from cur (c # cs) =
     (if is_space c then (if cur = [] then words_from [] cs else cur # words_from [] cs)
      else words_from (cur @ [c]) cs)"

definition words :: "string \<Rightarrow> string list" where
  "words u = words_from [] u"

text \<open>
  The canonical inputs: a symbol (a token without white space and parentheses that is
  not the apostrophe alone, not a boolean literal and has no numeric prefix),
  \<^verbatim>\<open>#t\<close>, \<^verbatim>\<open>#f\<close>, the decimal numeral of an integer below \<open>2^53\<close> in magnitude,
  and a non-empty list of canonical inputs in parentheses, separated by single spaces.
  \<open>parses s v\<close> says that the parser reads the tokens of \<open>s\<close> as \<open>v\<close> wherever they
  stand among other tokens.
\<close>

definition pad :: "string \<Rightarrow> string" where
  "pad s = replace_all (CHR '')'') '' ) '' (replace_all (CHR ''('') '' ( '' s)"

definition tokens_of :: "string \<Rightarrow> string list" where
  "tokens_of s = words (pad s)"

definition plain_token :: "string \<Rightarrow> bool" where
  "plain_token a = (a \<noteq> [] \<and> (\<forall>c \<in> set a. \<not> is_space c \<and> c \<noteq> CHR ''('' \<and> c \<noteq> CHR '')'')
                     \<and> a \<noteq> [CHR 0x27])"

definition canonical_symbol :: "string \<Rightarrow> bool" where
  "canonical_symbol a = (plain_token a \<and> a \<noteq> ''#t'' \<and> a \<noteq> ''#f'' \<and> parseFloat a = NaN)"

inductive canonical :: "string \<Rightarrow> bool" where
  symbol: "canonical_symbol a \<Longrightarrow> canonical a"
| true: "canonical ''#t''"
| false: "canonical ''#f''"
| numeral: "n < 2 ^ 53 \<Longrightarrow> canonical (digits_of n)"
| negative: "0 < n \<Longrightarrow> n < 2 ^ 53 \<Longrightarrow> canonical (CHR ''-'' # digits_of n)"
| list: "xs \<noteq> [] \<Longrightarrow> \<forall>x \<in> set xs. canonical x \<Longrightarrow> canonical (''('' @ join '' '' xs @ '')'')"

definition parses :: "string \<Rightarrow> value \<Rightarrow> bool" where
  "parses s v =
     (\<forall>pre post. \<exists>f. parseExpression f (pre @ tokens_of s @ post) (length pre)
                        = Some (Inr (v, length pre + length (tokens_of s))))"

section \<open>Properties\<close>

subsection \<open>Rounding is exact on small integers\<close>

lemma ilog2_le: "n < 2 ^ Suc k \<Longrightarrow> ilog2 n \<le> k"
proof (induction k arbitrary: n)
  case 0
  then show ?case by (subst ilog2.simps) simp
next
  case (Suc k)
  show ?case
  proof (cases "n < 2")
    case True
    then show ?thesis by (subst ilog2.simps) simp
  next
    case False
    from Suc.prems have "n div 2 < 2 ^ Suc k" by simp
    then have "ilog2 (n div 2) \<le> k" by (rule Suc.IH)
    with False show ?thesis by (subst ilog2.simps) simp
  qed
qed

lemma round_half_even_of_int: "round_half_even (of_int i) = i"
  by (simp add: round_half_even_def)

lemma pow2_small: "k \<le> 52 \<Longrightarrow> pow2 (int k - 52) = 1 / 2 ^ (52 - k)"
  by (cases "k = 52") (auto simp: pow2_def nat_diff_distrib')

lemma round64_nat_pos:
  assumes "0 < n" "n < 2 ^ 53"
  shows "round64 (of_nat n) = Fin (of_nat n)" and "round64 (- of_nat n) = Fin (- of_nat n)"
proof -
  define k where "k = ilog2 n"
  have k: "k \<le> 52" unfolding k_def using assms(2) by (intro ilog2_le) simp
  have ex: "fl_exponent (of_nat n) = int k"
    using assms(1) by (simp add: fl_exponent_def k_def)
  have e: "max (int k) (- 1022) = int k" by simp
  have u: "pow2 (int k - 52) = 1 / 2 ^ (52 - k)" using k by (rule pow2_small)
  have m: "round_half_even (of_nat n / (1 / 2 ^ (52 - k))) = int (n * 2 ^ (52 - k))"
  proof -
    have "(of_nat n / (1 / 2 ^ (52 - k)) :: rat) = of_int (int (n * 2 ^ (52 - k)))" by simp
    then show ?thesis by (simp only: round_half_even_of_int)
  qed
  have r: "(of_int (int (n * 2 ^ (52 - k))) * (1 / 2 ^ (52 - k)) :: rat) = of_nat n" by simp
  have "(of_nat n :: rat) < 2 ^ 53" using assms(2)
    by (metis of_nat_less_iff of_nat_numeral of_nat_power)
  also have "\<dots> \<le> 2 ^ 1024" by (rule power_increasing) simp_all
  finally have big: "\<not> pow2 1024 \<le> (of_nat n :: rat)" by (simp add: pow2_def)
  have nz: "int (n * 2 ^ (52 - k)) \<noteq> 0" using assms(1) by simp
  show "round64 (of_nat n) = Fin (of_nat n)"
    using assms(1) big nz
    by (simp only: round64_def Let_def abs_of_nat ex e u m r) simp
  have ab: "\<bar>- of_nat n :: rat\<bar> = of_nat n" by simp
  show "round64 (- of_nat n) = Fin (- of_nat n)"
    using assms(1) big nz
    by (simp only: round64_def Let_def ab ex e u m r) simp
qed

lemma round64_int:
  assumes "\<bar>z\<bar> < 2 ^ 53"
  shows "round64 (of_int z) = Fin (of_int z)"
proof -
  consider "z = 0" | "0 < z" | "z < 0" by linarith
  then show ?thesis
  proof cases
    case 1
    then show ?thesis by (simp add: round64_def)
  next
    case 2
    then have "0 < nat z" "nat z < 2 ^ 53" using assms by (auto simp: nat_less_iff)
    from round64_nat_pos(1) [OF this] 2 show ?thesis by simp
  next
    case 3
    then have "0 < nat (- z)" "nat (- z) < 2 ^ 53" using assms by (auto simp: nat_less_iff)
    from round64_nat_pos(2) [OF this] 3 show ?thesis by simp
  qed
qed


lemma round64_numeral:
  "numeral k < (9007199254740992 :: int) \<Longrightarrow> round64 (numeral k) = Fin (numeral k)"
  using round64_int [of "numeral k"] by simp

lemma round64_0: "round64 0 = Fin 0"
  by (simp add: round64_def)

lemma round64_1: "round64 1 = Fin 1"
  using round64_int [of 1] by simp

subsection \<open>Rules for running the reader and the evaluator on a given input\<close>

lemmas parseExpression_numeral =
  parseExpression.simps(2) [of "pred_numeral k", folded numeral_eq_Suc] for k

lemmas parseList_numeral =
  parseList.simps(2) [of "pred_numeral k", folded numeral_eq_Suc] for k

lemmas reader_eval = parse_def tokenize_def replace_all_def trim_def split_ws.simps is_space_def
  parseExpression_numeral parseList_numeral token_at_def parseAtom_def parseFloat_def
  str_unsigned_decimal_def is_digit_def digits_value_def exponent_part_def pow10_def
  round64_numeral round64_0 round64_1 Let_def

lemmas eval_simps = evaluate.simps evaluateWithTailCall.simps trampoline.simps run_thunk.simps
  call_proc.simps begin_loop.simps args_loop.simps lookup.simps prop_cadr_def prop_caddr_def
  new_Environment_def env_define_def arith_def compare_def strict_equal_def arg_def

lemma globalEnv_eq:
  "globalEnv =
     [\<lparr>vars = [(Symbol ''+'', Primitive Add), (Symbol ''-'', Primitive Sub),
               (Symbol ''*'', Primitive Mul), (Symbol ''/'', Primitive Div),
               (Symbol ''='', Primitive NumEq), (Symbol ''<'', Primitive Lt),
               (Symbol ''>'', Primitive Gt)],
       parent = None\<rparr>]"
  by (simp add: globalEnv_def new_Environment_def env_define_def)

subsection \<open>The special form \<^verbatim>\<open>if\<close>\<close>

lemma truthy_iff:
  "truthy c = (c \<notin> {Boolean False, Number (Fin 0), Number NegZero, Number NaN, Symbol [], Empty, Undefined})"
  by (cases c) (auto simp: fl_is_zero_def)

lemma evaluate_if:
  "evaluate (Suc d) (Suc k) (Pair (Symbol ''if'') (Pair C (Pair T (Pair F rest)))) env h =
     (case evaluate d (Suc k) C env h of
        None \<Rightarrow> None
      | Some (Inl e, h') \<Rightarrow> Some (Inl e, h')
      | Some (Inr c, h') \<Rightarrow>
          (case evaluateWithTailCall d (Suc k) (if truthy c then T else F) env h' of
             None \<Rightarrow> None
           | Some (Inl e, h'') \<Rightarrow> Some (Inl e, h'')
           | Some (Inr r, h'') \<Rightarrow> trampoline d (Suc k) k r h''))"
  apply (subst evaluate.simps)
  apply (simp add: evaluateWithTailCall.simps [of _ _ "Pair _ _"])
  apply (subst trampoline.simps)
  apply (simp add: run_thunk.simps prop_cadr_def prop_caddr_def
      split: option.splits sum.splits prod.splits)
  done

text \<open>
  Claim C1, as the code has it. Evaluating \<^verbatim>\<open>(if C T F)\<close> first evaluates \<^verbatim>\<open>C\<close>
  and then continues at \<^verbatim>\<open>T\<close> when the value of \<^verbatim>\<open>C\<close> is true for the host and at
  \<^verbatim>\<open>F\<close> when it is false for the host. False for the host are the boolean false,
  the numbers zero, negative zero and \<open>NaN\<close>, the empty symbol, the empty list and the
  undefined value. In the global environment \<^verbatim>\<open>(if #f 1 2)\<close> evaluates to 2, and so
  does \<^verbatim>\<open>(if 0 1 2)\<close>.
\<close>

theorem if_continues_by_host_truthiness:
  "evaluate (Suc d) (Suc k) (Pair (Symbol ''if'') (Pair C (Pair T (Pair F rest)))) env h =
     (case evaluate d (Suc k) C env h of
        None \<Rightarrow> None
      | Some (Inl e, h') \<Rightarrow> Some (Inl e, h')
      | Some (Inr c, h') \<Rightarrow>
          (case evaluateWithTailCall d (Suc k) (if truthy c then T else F) env h' of
             None \<Rightarrow> None
           | Some (Inl e, h'') \<Rightarrow> Some (Inl e, h'')
           | Some (Inr r, h'') \<Rightarrow> trampoline d (Suc k) k r h''))
   \<and> truthy c =
       (c \<notin> {Boolean False, Number (Fin 0), Number NegZero, Number NaN, Symbol [], Empty, Undefined})
   \<and> repl_step (Suc (Suc d)) (Suc k) ''(if #f 1 2)'' globalEnv
       = Some (Inr (Number (Fin 2)), globalEnv)
   \<and> repl_step (Suc (Suc d)) (Suc k) ''(if 0 1 2)'' globalEnv
       = Some (Inr (Number (Fin 2)), globalEnv)"
proof -
  have "repl_step (Suc (Suc d)) (Suc k) ''(if #f 1 2)'' globalEnv
          = Some (Inr (Number (Fin 2)), globalEnv)"
    by (simp add: repl_step_def reader_eval globalEnv_eq eval_simps)
  moreover have "repl_step (Suc (Suc d)) (Suc k) ''(if 0 1 2)'' globalEnv
          = Some (Inr (Number (Fin 2)), globalEnv)"
    by (simp add: repl_step_def reader_eval globalEnv_eq eval_simps fl_is_zero_def)
  ultimately show ?thesis
    using evaluate_if [of d k C T F rest env h] truthy_iff [of c] by simp
qed

text \<open>
  Claim C1 as the specification states it fails: the number zero is not truthy, and
  \<^verbatim>\<open>(if 0 1 2)\<close> in the global environment evaluates to 2, not to 1.
\<close>

theorem if_zero_is_falsy_counterexample:
  "repl_step 2 1 ''(if 0 1 2)'' globalEnv = Some (Inr (Number (Fin 2)), globalEnv)
   \<and> Number (Fin 2) \<noteq> Number (Fin 1)"
  by (simp add: repl_step_def reader_eval globalEnv_eq eval_simps fl_is_zero_def)

subsection \<open>The global environment\<close>


subsection \<open>The parser returns, and checks for trailing input\<close>

lemma parse_fuel_ok:
  "(\<forall>pos. 2 * (length ts - pos) + 1 \<le> f \<longrightarrow>
      (\<exists>r. parseExpression f ts pos = Some r \<and>
           (\<forall>v p. r = Inr (v, p) \<longrightarrow> pos < p \<and> p \<le> length ts)))
   \<and> (\<forall>pos acc. 2 * (length ts - pos) + 2 \<le> f \<longrightarrow>
      (\<exists>r. parseList f ts pos acc = Some r \<and>
           (\<forall>vs p. r = Inr (vs, p) \<longrightarrow> pos \<le> p \<and> p < length ts)))"
proof (induction f)
  case 0
  then show ?case by simp
next
  case (Suc n)
  have E: "\<exists>r. parseExpression (Suc n) ts pos = Some r \<and>
           (\<forall>v p. r = Inr (v, p) \<longrightarrow> pos < p \<and> p \<le> length ts)"
    if f: "2 * (length ts - pos) + 1 \<le> Suc n" for pos
  proof (cases "pos < length ts")
    case False
    then show ?thesis by (simp add: token_at_def)
  next
    case True
    then have t: "token_at ts pos = Some (ts ! pos)" by (simp add: token_at_def)
    from True f have f1: "2 * (length ts - (pos + 1)) + 2 \<le> n" by simp
    from True f have f2: "2 * (length ts - (pos + 1)) + 1 \<le> n" by simp
    from Suc f1 obtain r1 where r1: "parseList n ts (pos + 1) [] = Some r1"
      "\<And>vs p. r1 = Inr (vs, p) \<Longrightarrow> pos + 1 \<le> p \<and> p < length ts" by blast
    from Suc f2 obtain r2 where r2: "parseExpression n ts (pos + 1) = Some r2"
      "\<And>v p. r2 = Inr (v, p) \<Longrightarrow> pos + 1 < p \<and> p \<le> length ts" by blast
    show ?thesis
      using True r1 r2 by (cases r1; cases r2) (auto simp: t dest!: r1(2) r2(2))
  qed
  have L: "\<exists>r. parseList (Suc n) ts pos acc = Some r \<and>
           (\<forall>vs p. r = Inr (vs, p) \<longrightarrow> pos \<le> p \<and> p < length ts)"
    if f: "2 * (length ts - pos) + 2 \<le> Suc n" for pos acc
  proof (cases "pos < length ts")
    case False
    then show ?thesis by (simp add: token_at_def)
  next
    case True
    show ?thesis
    proof (cases "ts ! pos = '')''")
      case c: True
      with True show ?thesis by (simp add: token_at_def)
    next
      case c: False
      from f have f1: "2 * (length ts - pos) + 1 \<le> n" by simp
      from Suc f1 obtain r1 where r1: "parseExpression n ts pos = Some r1"
        "\<And>v p. r1 = Inr (v, p) \<Longrightarrow> pos < p \<and> p \<le> length ts" by blast
      show ?thesis
      proof (cases r1)
        case (Inl e)
        with True c r1 show ?thesis by (simp add: token_at_def)
      next
        case (Inr vp)
        obtain v p where vp: "vp = (v, p)" by (cases vp)
        from r1(2) Inr vp have p: "pos < p" "p \<le> length ts" by auto
        with f have "2 * (length ts - p) + 2 \<le> n" by simp
        with Suc obtain r3 where r3: "parseList n ts p (acc @ [v]) = Some r3"
          "\<And>vs q. r3 = Inr (vs, q) \<Longrightarrow> p \<le> q \<and> q < length ts" by blast
        from True c r1 Inr vp r3 p show ?thesis
          by (auto simp: token_at_def dest!: r3(2))
      qed
    qed
  qed
  from E L show ?case by blast
qed


lemma parse_fuel_mono:
  "(\<forall>pos r. parseExpression f ts pos = Some r \<longrightarrow> parseExpression (f + g) ts pos = Some r)
   \<and> (\<forall>pos acc r. parseList f ts pos acc = Some r \<longrightarrow> parseList (f + g) ts pos acc = Some r)"
proof (induction f)
  case 0
  then show ?case by simp
next
  case (Suc n)
  then have E: "\<And>pos r. parseExpression n ts pos = Some r \<Longrightarrow> parseExpression (n + g) ts pos = Some r"
    and L: "\<And>pos acc r. parseList n ts pos acc = Some r \<Longrightarrow> parseList (n + g) ts pos acc = Some r"
    by blast+
  have "parseExpression (Suc n + g) ts pos = Some r" if "parseExpression (Suc n) ts pos = Some r" for pos r
    using that
    by (auto split: option.splits sum.splits if_splits dest!: E L)
  moreover have "parseList (Suc n + g) ts pos acc = Some r" if "parseList (Suc n) ts pos acc = Some r" for pos acc r
    using that
    by (auto split: option.splits sum.splits if_splits dest!: E L)
  ultimately show ?case by blast
qed

lemma parseExpression_fuel:
  assumes "parseExpression f ts pos = Some r" and "parseExpression f' ts pos = Some r'"
  shows "r = r'"
proof -
  from assms(1) parse_fuel_mono [of f ts f'] have "parseExpression (f + f') ts pos = Some r" by blast
  moreover from assms(2) parse_fuel_mono [of f' ts f] have "parseExpression (f' + f) ts pos = Some r'" by blast
  ultimately show ?thesis by (simp add: add.commute)
qed

lemma parse_fuel_enough:
  obtains r where "parseExpression (2 * length ts + 1) ts 0 = Some r"
    and "\<And>v p. r = Inr (v, p) \<Longrightarrow> p \<le> length ts"
proof -
  have "2 * (length ts - 0) + 1 \<le> 2 * length ts + 1" by simp
  with parse_fuel_ok [of ts "2 * length ts + 1"]
  have "\<exists>r. parseExpression (2 * length ts + 1) ts 0 = Some r \<and>
           (\<forall>v p. r = Inr (v, p) \<longrightarrow> 0 < p \<and> p \<le> length ts)"
    by blast
  then show ?thesis using that by blast
qed

lemma parse_returns: "\<exists>r. parse s = Some r"
proof -
  obtain r where "parseExpression (2 * length (tokenize s) + 1) (tokenize s) 0 = Some r"
    by (rule parse_fuel_enough)
  then show ?thesis
    by (cases r) (auto simp: parse_def Let_def simp del: parseExpression.simps)
qed

lemma parse_result:
  assumes "parseExpression f (tokenize s) 0 = Some (Inr (v, p))"
  shows "p \<le> length (tokenize s)
    \<and> parse s = (if p < length (tokenize s) then Some (Inl UnexpectedExtraInput) else Some (Inr v))"
proof -
  let ?ts = "tokenize s"
  obtain r where r: "parseExpression (2 * length ?ts + 1) ?ts 0 = Some r"
    and b: "\<And>v p. r = Inr (v, p) \<Longrightarrow> p \<le> length ?ts"
    by (rule parse_fuel_enough [of ?ts]) blast
  from assms r have "r = Inr (v, p)" by (metis parseExpression_fuel)
  with r b show ?thesis by (auto simp: parse_def Let_def simp del: parseExpression.simps)
qed

text \<open>
  Claim C6. When \<^verbatim>\<open>parseExpression\<close> has parsed one complete expression from the
  tokens of the input and stopped at position \<open>p\<close>, then \<open>p\<close> is at most the number of
  tokens; \<^verbatim>\<open>parse\<close> fails with the error of trailing input when tokens are left
  (\<open>p\<close> is less than their number), and returns the expression when none is left.
\<close>

theorem parse_trailing_input:
  assumes "parseExpression f (tokenize s) 0 = Some (Inr (v, p))"
  shows "p \<le> length (tokenize s)
    \<and> parse s = (if p < length (tokenize s) then Some (Inl UnexpectedExtraInput) else Some (Inr v))"
  using assms by (rule parse_result)

text \<open>
  The input \<^verbatim>\<open>(define x 5) x\<close> has six tokens and its first expression ends at the
  fifth: it is refused. The input \<^verbatim>\<open>(define x 5)\<close> is parsed.
\<close>

theorem parse_trailing_input_witness:
  "parseExpression 11 (tokenize ''(define x 5) x'') 0
      = Some (Inr (Pair (Symbol ''define'') (Pair (Symbol ''x'') (Pair (Number (Fin 5)) Empty)), 5))
   \<and> 5 < length (tokenize ''(define x 5) x'')
   \<and> parse ''(define x 5) x'' = Some (Inl UnexpectedExtraInput)
   \<and> parse ''(define x 5)''
      = Some (Inr (Pair (Symbol ''define'') (Pair (Symbol ''x'') (Pair (Number (Fin 5)) Empty))))"
proof -
  let ?v = "Pair (Symbol ''define'') (Pair (Symbol ''x'') (Pair (Number (Fin 5)) Empty))"
  have a: "parseExpression 11 (tokenize ''(define x 5) x'') 0 = Some (Inr (?v, 5))"
    by (simp add: reader_eval)
  have b: "parseExpression 11 (tokenize ''(define x 5)'') 0 = Some (Inr (?v, 5))"
    by (simp add: reader_eval)
  have la: "length (tokenize ''(define x 5) x'') = 6" by (simp add: reader_eval)
  have lb: "length (tokenize ''(define x 5)'') = 5" by (simp add: reader_eval)
  from parse_trailing_input [OF a] parse_trailing_input [OF b] a la lb show ?thesis by simp
qed


subsection \<open>The quote abbreviation\<close>

text \<open>
  Claim C4 at the input \<^verbatim>\<open>'x\<close>: \<^verbatim>\<open>tokenize\<close> pads parentheses only, so the
  apostrophe stays in the token, and the parser returns the symbol named \<^verbatim>\<open>'x\<close>.
  Before a parenthesis the apostrophe does become a token of its own, and
  \<^verbatim>\<open>'(1 2 3)\<close> is parsed as \<^verbatim>\<open>(quote (1 2 3))\<close>.
\<close>

theorem quote_before_atom_stays_in_token:
  "tokenize [CHR 0x27, CHR ''x''] = [[CHR 0x27, CHR ''x'']]
   \<and> parse [CHR 0x27, CHR ''x''] = Some (Inr (Symbol [CHR 0x27, CHR ''x'']))
   \<and> tokenize (CHR 0x27 # ''(1 2 3)'') = [[CHR 0x27], ''('', ''1'', ''2'', ''3'', '')'']
   \<and> parse (CHR 0x27 # ''(1 2 3)'')
       = Some (Inr (Pair (Symbol ''quote'')
           (Pair (Pair (Number (Fin 1)) (Pair (Number (Fin 2)) (Pair (Number (Fin 3)) Empty)))
              Empty)))"
  by (simp add: reader_eval)

subsection \<open>The trampoline\<close>

lemma trampoline_result_not_thunk:
  "trampoline d K k r h = Some (Inr v, h') \<Longrightarrow> \<not> is_Thunk v"
proof (induction k arbitrary: r h)
  case 0
  then show ?case
    by (subst (asm) trampoline.simps) (auto split: if_splits)
next
  case (Suc k)
  from Suc.prems show ?case
    by (subst (asm) trampoline.simps)
       (auto split: if_splits option.splits sum.splits prod.splits dest: Suc.IH)
qed

text \<open>
  Claim C3. A value that \<^verbatim>\<open>evaluate\<close> returns is never a \<^verbatim>\<open>Thunk\<close>.
\<close>

theorem evaluate_never_returns_thunk:
  "evaluate d K expr env h = Some (Inr v, h') \<Longrightarrow> \<not> is_Thunk v"
  by (subst (asm) evaluate.simps)
     (auto split: nat.splits option.splits sum.splits prod.splits
           dest: trampoline_result_not_thunk)

text \<open>
  \<^verbatim>\<open>evaluateWithTailCall\<close> does return a thunk for \<^verbatim>\<open>(if #f 1 2)\<close>;
  \<^verbatim>\<open>evaluate\<close> returns the number 2.
\<close>

theorem evaluate_never_returns_thunk_witness:
  "evaluateWithTailCall 1 1 (Pair (Symbol ''if'') (Pair (Boolean False) (Pair (Number (Fin 1)) (Pair (Number (Fin 2)) Empty)))) 0 globalEnv
     = Some (Inr (ThunkIf (Pair (Boolean False) (Pair (Number (Fin 1)) (Pair (Number (Fin 2)) Empty))) 0), globalEnv)
   \<and> evaluate 2 1 (Pair (Symbol ''if'') (Pair (Boolean False) (Pair (Number (Fin 1)) (Pair (Number (Fin 2)) Empty)))) 0 globalEnv
     = Some (Inr (Number (Fin 2)), globalEnv)
   \<and> \<not> is_Thunk (Number (Fin 2))"
proof -
  let ?e = "Pair (Symbol ''if'') (Pair (Boolean False) (Pair (Number (Fin 1)) (Pair (Number (Fin 2)) Empty)))"
  have a: "evaluate 2 1 ?e 0 globalEnv = Some (Inr (Number (Fin 2)), globalEnv)"
    by (simp add: globalEnv_eq eval_simps)
  have b: "evaluateWithTailCall 1 1 ?e 0 globalEnv
     = Some (Inr (ThunkIf (Pair (Boolean False) (Pair (Number (Fin 1)) (Pair (Number (Fin 2)) Empty))) 0), globalEnv)"
    by (simp add: evaluateWithTailCall.simps)
  from evaluate_never_returns_thunk [OF a] a b show ?thesis by blast
qed

subsection \<open>\<^verbatim>\<open>define\<close> changes the current frame only\<close>

lemma map_of_map_set: "map_of (map_set m k v) = (map_of m)(k \<mapsto> v)"
  by (induction m) auto

lemma wf_heap_new_Environment:
  assumes "wf_heap h" and "case p of None \<Rightarrow> True | Some q \<Rightarrow> q < length h"
  shows "wf_heap (snd (new_Environment p h))"
  using assms
  by (auto simp: wf_heap_def new_Environment_def nth_append less_Suc_eq split: option.splits)

lemma env_define_length [simp]: "length (env_define env s v h) = length h"
  by (simp add: env_define_def)

lemma env_define_other: "i \<noteq> env \<Longrightarrow> env_define env s v h ! i = h ! i"
  by (simp add: env_define_def)

lemma env_define_parent: "parent (env_define env s v h ! i) = parent (h ! i)"
  by (cases "i = env"; cases "env < length h") (simp_all add: env_define_def not_less list_update_beyond)

lemma env_define_vars:
  "env < length h \<Longrightarrow> map_of (vars (env_define env s v h ! env)) = (map_of (vars (h ! env)))(s \<mapsto> v)"
  by (simp add: env_define_def map_of_map_set)

lemma wf_heap_env_define: "wf_heap h \<Longrightarrow> wf_heap (env_define env s v h)"
  by (simp add: wf_heap_def env_define_parent)

lemma wf_heap_parent: "wf_heap h \<Longrightarrow> i < length h \<Longrightarrow> parent (h ! i) = Some p \<Longrightarrow> p < i"
  by (auto simp: wf_heap_def split: option.splits)

lemma ancestor_less: "ancestor h env a \<Longrightarrow> wf_heap h \<Longrightarrow> a < env"
proof (induction rule: ancestor.induct)
  case (parent env p)
  then show ?case by (auto dest: wf_heap_parent)
next
  case (grandparent env a p)
  then have "p < a" by (auto dest: wf_heap_parent)
  with grandparent show ?case by simp
qed

lemma lookup_env_define_below:
  assumes "wf_heap h"
  shows "a < env \<Longrightarrow> lookup (env_define env s v h) a k = lookup h a k"
proof (induction a rule: less_induct)
  case (less a)
  show ?case
  proof (cases "a < length h")
    case False
    then show ?thesis by (subst lookup.simps, subst (2) lookup.simps) simp
  next
    case True
    from less.prems have ne: "a \<noteq> env" by simp
    have step: "lookup (env_define env s v h) p k = lookup h p k" if "parent (h ! a) = Some p" for p
      using wf_heap_parent [OF assms True that] less.prems by (intro less.IH) auto
    show ?thesis
      by (subst lookup.simps, subst (2) lookup.simps)
         (auto simp: True env_define_other [OF ne] step split: option.splits)
  qed
qed

lemma lookup_env_define_same:
  "env < length h \<Longrightarrow> lookup (env_define env s v h) env s = Some (Inr v)"
  by (subst lookup.simps) (simp add: env_define_vars)

lemma lookup_env_define_other_symbol:
  assumes "wf_heap h" "env < length h" "k \<noteq> s"
  shows "lookup (env_define env s v h) env k = lookup h env k"
proof -
  have step: "lookup (env_define env s v h) p k = lookup h p k" if "parent (h ! env) = Some p" for p
    using wf_heap_parent [OF assms(1,2) that] by (intro lookup_env_define_below [OF assms(1)])
  show ?thesis
    using assms(2,3)
    by (subst lookup.simps, subst (2) lookup.simps)
       (auto simp: env_define_vars env_define_parent step split: option.splits)
qed

text \<open>
  Claim C7. In a well-formed heap, \<^verbatim>\<open>define(symbol, value)\<close> on a frame leaves the number
  of frames, every other frame and the frame's parent as they are, and binds the symbol
  to the value in the frame, keeping the frame's other bindings. A lookup of the symbol
  from the frame then returns the value, a lookup of another symbol from the frame
  returns what it did, and so does every lookup that starts from an ancestor.
\<close>

theorem env_define_current_frame_only:
  assumes "wf_heap h" and "env < length h"
  shows "length (env_define env s v h) = length h
    \<and> (\<forall>i. i \<noteq> env \<longrightarrow> env_define env s v h ! i = h ! i)
    \<and> parent (env_define env s v h ! env) = parent (h ! env)
    \<and> map_of (vars (env_define env s v h ! env)) = (map_of (vars (h ! env)))(s \<mapsto> v)
    \<and> lookup (env_define env s v h) env s = Some (Inr v)
    \<and> (\<forall>k. k \<noteq> s \<longrightarrow> lookup (env_define env s v h) env k = lookup h env k)
    \<and> (\<forall>a k. ancestor h env a \<longrightarrow> lookup (env_define env s v h) a k = lookup h a k)"
  using assms
  by (auto simp: env_define_other env_define_parent env_define_vars lookup_env_define_same
        lookup_env_define_other_symbol lookup_env_define_below ancestor_less)


text \<open>
  A global frame that binds \<^verbatim>\<open>x\<close> to 1 and a child frame: after the child defines
  \<^verbatim>\<open>x\<close> as 5, the child sees 5 and the global frame still 1.
\<close>

theorem env_define_current_frame_only_witness:
  "wf_heap [\<lparr>vars = [(Symbol ''x'', Number (Fin 1))], parent = None\<rparr>, \<lparr>vars = [], parent = Some 0\<rparr>]
   \<and> ancestor [\<lparr>vars = [(Symbol ''x'', Number (Fin 1))], parent = None\<rparr>, \<lparr>vars = [], parent = Some 0\<rparr>] 1 0
   \<and> lookup [\<lparr>vars = [(Symbol ''x'', Number (Fin 1))], parent = None\<rparr>, \<lparr>vars = [], parent = Some 0\<rparr>]
         1 (Symbol ''x'') = Some (Inr (Number (Fin 1)))
   \<and> lookup (env_define 1 (Symbol ''x'') (Number (Fin 5))
         [\<lparr>vars = [(Symbol ''x'', Number (Fin 1))], parent = None\<rparr>, \<lparr>vars = [], parent = Some 0\<rparr>])
         1 (Symbol ''x'') = Some (Inr (Number (Fin 5)))
   \<and> lookup (env_define 1 (Symbol ''x'') (Number (Fin 5))
         [\<lparr>vars = [(Symbol ''x'', Number (Fin 1))], parent = None\<rparr>, \<lparr>vars = [], parent = Some 0\<rparr>])
         0 (Symbol ''x'') = Some (Inr (Number (Fin 1)))"
proof -
  let ?h = "[\<lparr>vars = [(Symbol ''x'', Number (Fin 1))], parent = None\<rparr>, \<lparr>vars = [], parent = Some 0\<rparr>]"
  have wf: "wf_heap ?h" by (simp add: wf_heap_def lessThan_Suc numeral_2_eq_2)
  have len: "1 < length ?h" by simp
  have anc: "ancestor ?h 1 0" by (rule ancestor.parent) simp_all
  have l0: "lookup ?h 0 (Symbol ''x'') = Some (Inr (Number (Fin 1)))" by (simp add: lookup.simps)
  have l1: "lookup ?h 1 (Symbol ''x'') = Some (Inr (Number (Fin 1)))" by (simp add: lookup.simps)
  from env_define_current_frame_only [OF wf len, of "Symbol ''x''" "Number (Fin 5)"] anc l0
  have "lookup (env_define 1 (Symbol ''x'') (Number (Fin 5)) ?h) 1 (Symbol ''x'') = Some (Inr (Number (Fin 5)))"
    and "lookup (env_define 1 (Symbol ''x'') (Number (Fin 5)) ?h) 0 (Symbol ''x'') = Some (Inr (Number (Fin 1)))"
    by auto
  with wf anc l1 show ?thesis by blast
qed

subsection \<open>A failure keeps the defines made before it\<close>





lemma run_defines_length [simp]: "length (run_defines env defs h) = length h"
  unfolding run_defines_def by (induction defs arbitrary: h) simp_all






subsection \<open>Atoms with a numeric prefix\<close>

lemma digits_then:
  assumes "all_digits ds" and "r = [] \<or> \<not> is_digit (hd r)"
  shows "takeWhile is_digit (ds @ r) = ds" and "dropWhile is_digit (ds @ r) = r"
proof -
  from assms(2) have t: "takeWhile is_digit r = []" and d: "dropWhile is_digit r = r"
    by (cases r; simp)+
  from assms(1) show "takeWhile is_digit (ds @ r) = ds"
    by (simp add: all_digits_def takeWhile_append2 t)
  from assms(1) show "dropWhile is_digit (ds @ r) = r"
    by (simp add: all_digits_def dropWhile_append2 d)
qed

lemma not_digit_chars [simp]:
  "\<not> is_digit (CHR ''.'')" "\<not> is_digit (CHR ''e'')" "\<not> is_digit (CHR ''E'')"
  "\<not> is_digit (CHR ''+'')" "\<not> is_digit (CHR ''-'')" "\<not> is_digit (CHR ''I'')"
  "\<not> is_space (CHR ''.'')" "\<not> is_space (CHR ''+'')" "\<not> is_space (CHR ''-'')"
  "\<not> is_space (CHR ''I'')"
  by (simp_all add: is_digit_def is_space_def)

lemma digit_not_space: "is_digit c \<Longrightarrow> \<not> is_space c"
  by (auto simp: is_digit_def is_space_def)

lemma exponent_part_none:
  "non_numeric_start r \<Longrightarrow> exponent_part r = 0"
  by (cases r) (auto simp: exponent_part_def non_numeric_start_def)

lemma exponent_part_some:
  assumes "c \<in> {CHR ''e'', CHR ''E''}" "es \<in> {[], ''+'', ''-''}" "ed \<noteq> []" "all_digits ed"
    and "non_numeric_start r"
  shows "exponent_part (c # es @ ed @ r)
           = (if es = ''-'' then - int (digits_value ed) else int (digits_value ed))"
proof -
  from assms(5) have r: "r = [] \<or> \<not> is_digit (hd r)" by (auto simp: non_numeric_start_def)
  from assms(3,4) have hd: "is_digit (hd ed)" "hd (ed @ r) = hd ed" "ed @ r \<noteq> []"
    by (cases ed; simp add: all_digits_def)+
  then have h: "hd (ed @ r) \<noteq> CHR ''+''" "hd (ed @ r) \<noteq> CHR ''-''" by auto
  note tw = digits_then(1) [OF assms(4) r]
  from assms(2) consider "es = []" | "es = ''+''" | "es = ''-''" by auto
  then show ?thesis
  proof cases
    case 1
    with assms(1,3) hd h show ?thesis by (auto simp: exponent_part_def tw Let_def)
  next
    case 2
    with assms(1,3) show ?thesis by (auto simp: exponent_part_def tw Let_def)
  next
    case 3
    with assms(1,3) show ?thesis by (auto simp: exponent_part_def tw Let_def)
  qed
qed


lemma round64_not_NaN [simp]: "round64 q \<noteq> NaN"
  by (simp add: round64_def Let_def)

lemma fl_neg_NaN [simp]: "fl_neg x = NaN \<longleftrightarrow> x = NaN"
  by (cases x) auto

lemma exp_text_props:
  assumes "literal_wf l" "non_numeric_start r"
  shows "exp_text l @ r = [] \<or> \<not> is_digit (hd (exp_text l @ r))"
    and "exp_text l @ r = [] \<or> hd (exp_text l @ r) \<noteq> CHR ''.''"
    and "exponent_part (exp_text l @ r)
           = (case l_exp l of
                None \<Rightarrow> 0
              | Some (c, es, ed) \<Rightarrow> if es = ''-'' then - int (digits_value ed) else int (digits_value ed))"
proof -
  show "exp_text l @ r = [] \<or> \<not> is_digit (hd (exp_text l @ r))"
    using assms by (cases r) (auto simp: exp_text_def literal_wf_def non_numeric_start_def split: option.splits)
  show "exp_text l @ r = [] \<or> hd (exp_text l @ r) \<noteq> CHR ''.''"
    using assms by (cases r) (auto simp: exp_text_def literal_wf_def non_numeric_start_def split: option.splits)
  show "exponent_part (exp_text l @ r)
           = (case l_exp l of
                None \<Rightarrow> 0
              | Some (c, es, ed) \<Rightarrow> if es = ''-'' then - int (digits_value ed) else int (digits_value ed))"
  proof (cases "l_exp l")
    case None
    then show ?thesis using assms(2) by (simp add: exp_text_def exponent_part_none)
  next
    case (Some x)
    obtain c es ed where x: "x = (c, es, ed)" by (cases x)
    from assms(1) Some x have "c \<in> {CHR ''e'', CHR ''E''}" "es \<in> {[], ''+'', ''-''}" "ed \<noteq> []" "all_digits ed"
      by (auto simp: literal_wf_def)
    from exponent_part_some [OF this assms(2)] Some x show ?thesis
      by (simp add: exp_text_def)
  qed
qed

lemma unsigned_scan_int:
  assumes "all_digits ip" "ip \<noteq> []" "e = [] \<or> (\<not> is_digit (hd e) \<and> hd e \<noteq> CHR ''.'')"
  shows "str_unsigned_decimal (ip @ e)
           = Some (round64 (of_nat (digits_value ip) * pow10 (exponent_part e)))"
proof -
  from assms(1,2) have "is_digit (hd ip)" by (cases ip) (auto simp: all_digits_def)
  with assms(2) have noinf: "take 8 (ip @ e) \<noteq> ''Infinity''"
    by (cases ip) auto
  from assms(3) have nd: "e = [] \<or> \<not> is_digit (hd e)" by blast
  note tw = digits_then [OF assms(1) nd]
  from assms(2,3) noinf show ?thesis
    by (auto simp: str_unsigned_decimal_def tw Let_def)
qed

lemma unsigned_scan_frac:
  assumes "all_digits ip" "all_digits fp" "ip \<noteq> [] \<or> fp \<noteq> []" "e = [] \<or> \<not> is_digit (hd e)"
  shows "str_unsigned_decimal (ip @ CHR ''.'' # fp @ e)
           = Some (round64 (of_nat (digits_value (ip @ fp)) * pow10 (exponent_part e - int (length fp))))"
proof -
  let ?r1 = "CHR ''.'' # fp @ e"
  have "hd (ip @ ?r1) \<noteq> CHR ''I''"
    using assms(1) by (cases ip) (auto simp: all_digits_def)
  then have noinf: "take 8 (ip @ ?r1) \<noteq> ''Infinity''"
    by (cases "ip @ ?r1") auto
  have "?r1 = [] \<or> \<not> is_digit (hd ?r1)" by simp
  note tw1 = digits_then [OF assms(1) this]
  note tw2 = digits_then [OF assms(2,4)]
  from assms(3) noinf show ?thesis
    by (auto simp: str_unsigned_decimal_def tw1 tw2 Let_def)
qed

lemma str_unsigned_decimal_literal:
  assumes wf: "literal_wf l" and r: "non_numeric_start r"
  shows "str_unsigned_decimal
           (l_int l @ (case l_frac l of None \<Rightarrow> [] | Some fp \<Rightarrow> CHR ''.'' # fp) @ exp_text l @ r)
         = Some (unsigned_value l)"
proof -
  define e where "e = exp_text l @ r"
  note p = exp_text_props [OF wf r, folded e_def]
  from wf have ip: "all_digits (l_int l)" by (simp add: literal_wf_def)
  show ?thesis
  proof (cases "l_frac l")
    case None
    with wf have ne: "l_int l \<noteq> []" by (simp add: literal_wf_def)
    from p(1,2) have "e = [] \<or> (\<not> is_digit (hd e) \<and> hd e \<noteq> CHR ''.'')" by blast
    from unsigned_scan_int [OF ip ne this] show ?thesis
      by (simp add: None unsigned_value_def p(3) flip: e_def)
  next
    case (Some fp)
    with wf have fp: "all_digits fp" and ne: "l_int l \<noteq> [] \<or> fp \<noteq> []" by (auto simp: literal_wf_def)
    from unsigned_scan_frac [OF ip fp ne p(1)] show ?thesis
      by (simp add: Some unsigned_value_def p(3) flip: e_def)
  qed
qed


lemma parseFloat_literal:
  assumes wf: "literal_wf l" and r: "non_numeric_start r"
  shows "parseFloat (literal_text l @ r) = literal_value l"
proof -
  define body where
    "body = l_int l @ (case l_frac l of None \<Rightarrow> [] | Some fp \<Rightarrow> CHR ''.'' # fp) @ exp_text l @ r"
  have u: "str_unsigned_decimal body = Some (unsigned_value l)"
    unfolding body_def by (rule str_unsigned_decimal_literal [OF wf r])
  have hd: "body \<noteq> []" "\<not> is_space (hd body)" "hd body \<noteq> CHR ''+''" "hd body \<noteq> CHR ''-''"
    using wf unfolding body_def
    by (cases "l_int l"; auto simp: literal_wf_def all_digits_def digit_not_space split: option.splits)+
  have t: "literal_text l @ r = l_sign l @ body"
    by (simp add: literal_text_def body_def)
  have sp: "dropWhile is_space body = body" using hd by (cases body) auto
  from wf consider "l_sign l = []" | "l_sign l = ''+''" | "l_sign l = ''-''"
    by (auto simp: literal_wf_def)
  then show ?thesis
  proof cases
    case 1
    with hd u show ?thesis by (simp add: t parseFloat_def sp literal_value_def)
  next
    case 2
    with u show ?thesis by (simp add: t parseFloat_def literal_value_def)
  next
    case 3
    with u show ?thesis by (simp add: t parseFloat_def literal_value_def)
  qed
qed

lemma literal_value_not_NaN: "literal_value l \<noteq> NaN"
  by (simp add: literal_value_def unsigned_value_def Let_def)

lemma literal_text_not_boolean:
  assumes "literal_wf l"
  shows "literal_text l @ r \<noteq> ''#t''" "literal_text l @ r \<noteq> ''#f''"
proof -
  have d: "\<not> is_digit (CHR ''#'')" by (simp add: is_digit_def)
  have "hd (literal_text l @ r) \<noteq> CHR ''#''"
    using assms d
    by (cases "l_int l")
       (auto simp: literal_text_def literal_wf_def all_digits_def split: option.splits)
  then show "literal_text l @ r \<noteq> ''#t''" "literal_text l @ r \<noteq> ''#f''" by auto
qed

lemma str_unsigned_decimal_Infinity: "str_unsigned_decimal (''Infinity'' @ r) = Some PosInf"
proof -
  have "take 8 (''Infinity'' @ r) = ''Infinity''" by simp
  then show ?thesis by (simp only: str_unsigned_decimal_def refl if_True)
qed

lemmas str_unsigned_decimal_Infinity' = str_unsigned_decimal_Infinity [simplified]

lemma parseFloat_Infinity:
  "parseFloat (''Infinity'' @ r) = PosInf"
  "parseFloat (''+'' @ ''Infinity'' @ r) = PosInf"
  "parseFloat (''-'' @ ''Infinity'' @ r) = NegInf"
  by (simp_all add: parseFloat_def str_unsigned_decimal_Infinity')

lemma parseAtom_Infinity:
  assumes "sg \<in> {[], ''+'', ''-''}"
  shows "parseAtom (sg @ ''Infinity'' @ r) = Number (if sg = ''-'' then NegInf else PosInf)"
proof -
  from assms consider "sg = []" | "sg = ''+''" | "sg = ''-''" by auto
  then show ?thesis
  proof cases
    case 1
    have "parseAtom (''Infinity'' @ r) = Number PosInf"
      unfolding parseAtom_def Let_def parseFloat_Infinity by simp
    with 1 show ?thesis by simp
  next
    case 2
    have "parseAtom (''+'' @ ''Infinity'' @ r) = Number PosInf"
      unfolding parseAtom_def Let_def parseFloat_Infinity by simp
    with 2 show ?thesis by simp
  next
    case 3
    have "parseAtom (''-'' @ ''Infinity'' @ r) = Number NegInf"
      unfolding parseAtom_def Let_def parseFloat_Infinity by simp
    with 3 show ?thesis by simp
  qed
qed

lemma parseAtom_literal:
  assumes "literal_wf l" and "non_numeric_start r"
  shows "parseAtom (literal_text l @ r) = Number (literal_value l)"
  using parseFloat_literal [OF assms] literal_text_not_boolean [OF assms(1), of r]
  by (simp add: parseAtom_def Let_def literal_value_not_NaN)

text \<open>
  Claim C10. A token that starts with a decimal literal followed by a non-numeric rest
  is read as the number of that literal, the same number as the literal alone; a
  token that starts with \<^verbatim>\<open>Infinity\<close>, signed or not, is read as that infinity
  whatever follows; and a token is read as a symbol exactly when it is neither
  \<^verbatim>\<open>#t\<close> nor \<^verbatim>\<open>#f\<close> and \<^verbatim>\<open>parseFloat\<close> finds no numeric prefix in it.
\<close>

theorem atom_numeric_prefix:
  assumes "literal_wf l" and "non_numeric_start r"
  shows "parseAtom (literal_text l @ r) = Number (literal_value l)
    \<and> parseAtom (literal_text l) = Number (literal_value l)
    \<and> (sg \<in> {[], ''+'', ''-''} \<longrightarrow>
         parseAtom (sg @ ''Infinity'' @ r') = Number (if sg = ''-'' then NegInf else PosInf))
    \<and> (parseAtom t = Symbol s \<longleftrightarrow> s = t \<and> t \<noteq> ''#t'' \<and> t \<noteq> ''#f'' \<and> parseFloat t = NaN)"
proof -
  have a: "parseAtom (literal_text l @ r) = Number (literal_value l)" if "non_numeric_start r" for r
    using assms(1) that by (rule parseAtom_literal)
  have "non_numeric_start []" by (simp add: non_numeric_start_def)
  from a [OF this] a [OF assms(2)] parseAtom_Infinity [of sg r'] show ?thesis
    by (auto simp: parseAtom_def Let_def)
qed

lemma floor_numeral_divide: "\<lfloor>(numeral a :: rat) / numeral b\<rfloor> = numeral a div numeral b"
  using floor_divide_of_int_eq [of "numeral a" "numeral b", where ?'a = rat] by simp

lemma pow2_pos: "0 < pow2 e"
  by (simp add: pow2_def)

lemma round64_exactI:
  assumes "0 < q" and "fl_exponent q = e" and "- 1022 \<le> e"
    and "q / pow2 (e - 52) = of_int m" and "q < pow2 1024"
  shows "round64 q = Fin q"
proof -
  have a: "\<bar>q\<bar> = q" using assms(1) by simp
  have mx: "max e (- 1022) = e" using assms(3) by simp
  have r: "of_int m * pow2 (e - 52) = q"
    using assms(4) pow2_pos [of "e - 52"] by (simp add: field_simps)
  have m0: "m \<noteq> 0" using r assms(1) by auto
  have nb: "\<not> pow2 1024 \<le> q" using assms(5) by simp
  have nz: "q \<noteq> 0" "\<not> q < 0" using assms(1) by simp_all
  show ?thesis
    unfolding round64_def Let_def a assms(2) mx assms(4) round_half_even_of_int r
    using nb nz m0 by simp
qed

lemma round64_7_2: "round64 (7 / 2) = Fin (7 / 2)"
proof (rule round64_exactI [where e = 1 and m = 7881299347898368])
  show "fl_exponent (7 / 2) = 1"
    by (simp add: fl_exponent_def floor_numeral_divide ilog2.simps)
  show "(7 / 2 :: rat) / pow2 (1 - 52) = of_int 7881299347898368"
    by (simp add: pow2_def)
  show "(7 / 2 :: rat) < pow2 1024"
    by (simp add: pow2_def)
qed simp_all

text \<open>
  \<^verbatim>\<open>3.5x\<close> is the number 3.5, \<^verbatim>\<open>1abc\<close> the number 1, and \<^verbatim>\<open>abc\<close> a symbol.
\<close>

theorem atom_numeric_prefix_witness:
  "parseAtom ''3.5x'' = Number (Fin (7 / 2)) \<and> parseAtom ''1abc'' = Number (Fin 1)
   \<and> parseAtom ''abc'' = Symbol ''abc''"
proof -
  let ?l = "\<lparr>l_sign = [], l_int = ''3'', l_frac = Some ''5'', l_exp = None\<rparr>"
  let ?m = "\<lparr>l_sign = [], l_int = ''1'', l_frac = None, l_exp = None\<rparr>"
  have wl: "literal_wf ?l" and wm: "literal_wf ?m"
    by (simp_all add: literal_wf_def all_digits_def is_digit_def)
  have x: "non_numeric_start ''x''" and abc: "non_numeric_start ''abc''"
    by (simp_all add: non_numeric_start_def is_digit_def)
  have vl: "literal_value ?l = Fin (7 / 2)"
    by (simp add: literal_value_def unsigned_value_def digits_value_def pow10_def round64_7_2)
  have vm: "literal_value ?m = Fin 1"
    by (simp add: literal_value_def unsigned_value_def digits_value_def pow10_def round64_1)
  have nan: "parseFloat ''abc'' = NaN"
    by (simp add: parseFloat_def str_unsigned_decimal_def is_space_def is_digit_def)
  from atom_numeric_prefix [OF wl x, of "[]" "[]" "''abc''" "''abc''"] atom_numeric_prefix [OF wm abc] vl vm nan
  show ?thesis by (simp add: literal_text_def exp_text_def)
qed

subsection \<open>A tail-recursive loop runs in constant stack\<close>

lemma define_loop:
  "repl_step (Suc (Suc d)) K ''(define loop (lambda (n) (if (= n 0) 0 (loop (- n 1)))))'' globalEnv
     = Some (Inr Undefined, loopEnv)"
  by (simp add: repl_step_def reader_eval eval_simps loopEnv_def loop_closure_def loop_body_def
        loop_cond_def loop_rec_def)

lemma parse_loop_call:
  "parse ''(loop 1000000)'' = Some (Inr (Pair (Symbol ''loop'') (Pair (Number (Fin 1000000)) Empty)))"
  by (simp add: reader_eval)

lemma loopEnv_0:
  "loopEnv ! 0 = \<lparr>vars = [(Symbol ''+'', Primitive Add), (Symbol ''-'', Primitive Sub),
               (Symbol ''*'', Primitive Mul), (Symbol ''/'', Primitive Div),
               (Symbol ''='', Primitive NumEq), (Symbol ''<'', Primitive Lt),
               (Symbol ''>'', Primitive Gt), (Symbol ''loop'', loop_closure)],
       parent = None\<rparr>"
  by (simp add: loopEnv_def globalEnv_eq env_define_def)

lemma loop_heap_append: "loop_heap h \<Longrightarrow> loop_heap (h @ [f])"
  by (simp add: loop_heap_def nth_append)

lemma call_step:
  "trampoline D K (Suc k) (ThunkApply loop_closure [Number x]) h
     = trampoline D K k (ThunkIf (Pair loop_cond (Pair (Number (Fin 0)) (Pair loop_rec Empty))) (length h))
         (h @ [loop_frame x])"
  by (subst trampoline.simps)
     (simp add: run_thunk.simps call_proc.simps loop_closure_def new_Environment_def env_define_def
        prop_cadr_def loop_body_def evaluateWithTailCall.simps loop_frame_def)

lemma cond_step:
  assumes "loop_heap h"
  shows "evaluate (Suc (Suc d)) (Suc K) loop_cond (length h) (h @ [loop_frame x])
           = Some (Inr (Boolean (fl_eq x (Fin 0))), h @ [loop_frame x])"
  using assms
  by (simp add: loop_heap_def loopEnv_0 loop_cond_def loop_frame_def eval_simps nth_append)

lemma sub_step:
  assumes "loop_heap h"
  shows "evaluate (Suc (Suc d)) (Suc K)
           (Pair (Symbol ''-'') (Pair (Symbol ''n'') (Pair (Number (Fin 1)) Empty)))
           (length h) (h @ [loop_frame x])
           = Some (Inr (Number (fl_sub x (Fin 1))), h @ [loop_frame x])"
  using assms
  by (simp add: loop_heap_def loopEnv_0 loop_frame_def eval_simps nth_append)


lemma rec_step:
  assumes "loop_heap h"
  shows "evaluateWithTailCall (Suc (Suc d)) (Suc K) loop_rec (length h) (h @ [loop_frame x])
           = Some (Inr (ThunkApply loop_closure [Number (fl_sub x (Fin 1))]), h @ [loop_frame x])"
proof -
  have l: "evaluate (Suc (Suc d)) (Suc K) (Symbol ''loop'') (length h) (h @ [loop_frame x])
             = Some (Inr loop_closure, h @ [loop_frame x])"
    using assms
    by (simp add: loop_heap_def loopEnv_0 loop_frame_def nth_append evaluate.simps
          evaluateWithTailCall.simps lookup.simps trampoline.simps loop_closure_def)
  show ?thesis
    unfolding loop_rec_def
    by (subst evaluateWithTailCall.simps)
       (simp add: l args_loop.simps sub_step [OF assms] loop_closure_def)
qed

lemma if_step:
  assumes "loop_heap h"
  shows "trampoline (Suc (Suc d)) (Suc K) (Suc k)
           (ThunkIf (Pair loop_cond (Pair (Number (Fin 0)) (Pair loop_rec Empty))) (length h))
           (h @ [loop_frame x])
         = (if fl_eq x (Fin 0) then Some (Inr (Number (Fin 0)), h @ [loop_frame x])
            else trampoline (Suc (Suc d)) (Suc K) k
                   (ThunkApply loop_closure [Number (fl_sub x (Fin 1))]) (h @ [loop_frame x]))"
proof -
  have z: "evaluateWithTailCall (Suc (Suc d)) (Suc K) (Number (Fin 0)) (length h) (h @ [loop_frame x])
             = Some (Inr (Number (Fin 0)), h @ [loop_frame x])"
    by (simp add: evaluateWithTailCall.simps)
  have t: "trampoline (Suc (Suc d)) (Suc K) k (Number (Fin 0)) (h @ [loop_frame x])
             = Some (Inr (Number (Fin 0)), h @ [loop_frame x])"
    by (simp add: trampoline.simps)
  show ?thesis
    by (subst trampoline.simps)
       (simp add: run_thunk.simps cond_step [OF assms] rec_step [OF assms] z t
          prop_cadr_def prop_caddr_def)
qed

lemma fl_eq_Fin_0: "fl_eq (Fin a) (Fin 0) = (a = 0)"
  by (auto simp: fl_is_zero_def)

lemma fl_sub_Suc:
  assumes "n < 2 ^ 53"
  shows "fl_sub (Fin (of_nat (Suc n))) (Fin 1) = Fin (of_nat n)"
proof -
  have "int n < 2 ^ 53" using assms by simp
  then have "\<bar>int n\<bar> < 2 ^ 53" by simp
  from round64_int [OF this] have r: "round64 (rat_of_nat n) = Fin (rat_of_nat n)" by simp
  have "fl_sub (Fin (of_nat (Suc n))) (Fin 1) = round64 (rat_of_nat (Suc n) + - 1)"
    by (simp add: fl_sub_def)
  also have "rat_of_nat (Suc n) + - 1 = rat_of_nat n" by simp
  finally show ?thesis by (simp only: r)
qed

lemma loop_runs:
  assumes "n < 2 ^ 53"
  shows "loop_heap h \<Longrightarrow> 2 * n + 2 \<le> k \<Longrightarrow>
     \<exists>h'. trampoline (Suc (Suc d)) (Suc K) k (ThunkApply loop_closure [Number (Fin (of_nat n))]) h
            = Some (Inr (Number (Fin 0)), h')"
  using assms
proof (induction n arbitrary: h k)
  case 0
  then obtain k' where k: "k = Suc (Suc k')" by (cases k; cases "k - 1"; simp)
  show ?case
    by (simp add: k call_step if_step [OF 0(1)] fl_eq_Fin_0)
next
  case (Suc n)
  then obtain k' where k: "k = Suc (Suc k')" and k': "2 * n + 2 \<le> k'"
    by (cases k; cases "k - 1"; simp)
  from Suc.prems have n: "n < 2 ^ 53" by simp
  have h2: "loop_heap (h @ [loop_frame (Fin (of_nat (Suc n)))])"
    using Suc.prems(1) by (rule loop_heap_append)
  from Suc.IH [OF h2 k' n] show ?case
    by (simp only: k call_step if_step [OF Suc.prems(1)] fl_sub_Suc [OF n] fl_eq_Fin_0) simp
qed

lemma loop_call:
  assumes "n < 2 ^ 53" "2 * n + 2 \<le> Suc K"
  shows "\<exists>h'. evaluate (Suc (Suc (Suc d))) (Suc K)
                 (Pair (Symbol ''loop'') (Pair (Number (Fin (of_nat n))) Empty)) 0 loopEnv
               = Some (Inr (Number (Fin 0)), h')"
proof -
  have g: "loop_heap loopEnv" by (simp add: loop_heap_def loopEnv_def globalEnv_eq)
  have l: "evaluate (Suc (Suc d)) (Suc K) (Symbol ''loop'') 0 loopEnv = Some (Inr loop_closure, loopEnv)"
    by (simp add: loopEnv_def globalEnv_eq env_define_def evaluate.simps
          evaluateWithTailCall.simps lookup.simps trampoline.simps loop_closure_def)
  have a: "evaluate (Suc (Suc d)) (Suc K) (Number (Fin (of_nat n))) 0 loopEnv
             = Some (Inr (Number (Fin (of_nat n))), loopEnv)"
    by (simp add: evaluate.simps evaluateWithTailCall.simps trampoline.simps)
  have "evaluate (Suc (Suc (Suc d))) (Suc K)
          (Pair (Symbol ''loop'') (Pair (Number (Fin (of_nat n))) Empty)) 0 loopEnv
        = trampoline (Suc (Suc d)) (Suc K) (Suc K)
            (ThunkApply loop_closure [Number (Fin (of_nat n))]) loopEnv"
    by (subst evaluate.simps)
       (simp add: evaluateWithTailCall.simps [of _ _ "Pair _ _"] l a args_loop.simps loop_closure_def)
  with loop_runs [OF assms(1) g assms(2)] show ?thesis by simp
qed


text \<open>
  Claim C2. The define of \<^verbatim>\<open>loop\<close> in the global environment leaves the heap
  \<open>loopEnv\<close>. There, for every \<open>n\<close> below \<open>2^53\<close>, the call of \<^verbatim>\<open>loop\<close> with \<open>n\<close>
  returns the number 0 with a native stack of three nested calls of \<^verbatim>\<open>evaluate\<close>,
  whatever \<open>n\<close> is, once the trampoline may run its \<open>2 * n + 2\<close> iterations; in
  particular \<^verbatim>\<open>(loop 1000000)\<close> returns 0.
\<close>

theorem tail_recursive_loop_constant_stack:
  "repl_step (Suc (Suc d)) K ''(define loop (lambda (n) (if (= n 0) 0 (loop (- n 1)))))'' globalEnv
     = Some (Inr Undefined, loopEnv)
   \<and> (n < 2 ^ 53 \<longrightarrow> 2 * n + 2 \<le> Suc K \<longrightarrow>
        (\<exists>h'. evaluate (Suc (Suc (Suc d))) (Suc K)
                 (Pair (Symbol ''loop'') (Pair (Number (Fin (of_nat n))) Empty)) 0 loopEnv
               = Some (Inr (Number (Fin 0)), h')))
   \<and> (2000002 \<le> Suc K \<longrightarrow>
        (\<exists>h'. repl_step (Suc (Suc (Suc d))) (Suc K) ''(loop 1000000)'' loopEnv
               = Some (Inr (Number (Fin 0)), h')))"
proof -
  have big: "(1000000 :: nat) < 2 ^ 53" by simp
  have "\<exists>h'. repl_step (Suc (Suc (Suc d))) (Suc K) ''(loop 1000000)'' loopEnv
               = Some (Inr (Number (Fin 0)), h')" if "2000002 \<le> Suc K"
  proof -
    from that have "2 * 1000000 + 2 \<le> Suc K" by simp
    from loop_call [OF big this, of d] show ?thesis
      by (simp add: repl_step_def parse_loop_call)
  qed
  with define_loop [of d K] loop_call [of n K d] show ?thesis by blast
qed

text \<open>
  With a stack of three nested calls \<^verbatim>\<open>(loop 1000000)\<close> returns 0; with a stack of
  one call it fails with the error of the exhausted stack, so the bound is not vacuous.
\<close>

theorem tail_recursive_loop_constant_stack_witness:
  "repl_step 2 1 ''(define loop (lambda (n) (if (= n 0) 0 (loop (- n 1)))))'' globalEnv
     = Some (Inr Undefined, loopEnv)
   \<and> (\<exists>h'. repl_step 3 2000002 ''(loop 1000000)'' loopEnv = Some (Inr (Number (Fin 0)), h'))
   \<and> repl_step 1 2000002 ''(loop 1000000)'' loopEnv = Some (Inl RangeError, loopEnv)"
proof -
  have r: "repl_step 1 2000002 ''(loop 1000000)'' loopEnv = Some (Inl RangeError, loopEnv)"
    by (simp add: repl_step_def parse_loop_call evaluate.simps evaluateWithTailCall.simps)
  have d: "repl_step 2 1 ''(define loop (lambda (n) (if (= n 0) 0 (loop (- n 1)))))'' globalEnv
     = Some (Inr Undefined, loopEnv)"
    using tail_recursive_loop_constant_stack [of 0 1 0] by (simp add: numeral_2_eq_2)
  have "(2000002 :: nat) \<le> Suc 2000001" by simp
  with tail_recursive_loop_constant_stack [of 0 2000001 0]
  have "\<exists>h'. repl_step (Suc (Suc (Suc 0))) (Suc 2000001) ''(loop 1000000)'' loopEnv
               = Some (Inr (Number (Fin 0)), h')" by blast
  then have "\<exists>h'. repl_step 3 2000002 ''(loop 1000000)'' loopEnv = Some (Inr (Number (Fin 0)), h')"
    by (simp add: numeral_3_eq_3)
  with r d show ?thesis by blast
qed

subsection \<open>The tokenizer splits at white space and parentheses\<close>

lemma words_from_space:
  "is_space c \<Longrightarrow> words_from cur (a @ c # b) = words_from cur a @ words_from [] b"
  by (induction a arbitrary: cur) auto

lemma words_append_space: "is_space c \<Longrightarrow> words (a @ c # b) = words a @ words b"
  by (simp add: words_def words_from_space)

lemma words_from_no_space:
  "\<forall>c \<in> set a. \<not> is_space c \<Longrightarrow> words_from cur a = (if cur @ a = [] then [] else [cur @ a])"
  by (induction a arbitrary: cur) auto

lemma words_no_space: "a \<noteq> [] \<Longrightarrow> \<forall>c \<in> set a. \<not> is_space c \<Longrightarrow> words a = [a]"
  by (simp add: words_def words_from_no_space)

lemma words_Nil [simp]: "words [] = []"
  by (simp add: words_def)

lemma words_dropWhile: "words (dropWhile is_space u) = words u"
  by (induction u) (auto simp: words_def)

lemma words_from_spaces: "\<forall>c \<in> set sp. is_space c \<Longrightarrow> words_from cur sp = words_from cur []"
  by (induction sp arbitrary: cur) auto

lemma words_from_trailing:
  "\<forall>c \<in> set sp. is_space c \<Longrightarrow> words_from cur (t @ sp) = words_from cur t"
proof (induction t arbitrary: cur)
  case Nil
  then show ?case using words_from_spaces [of sp cur] by simp
next
  case (Cons x t)
  then show ?case by simp
qed

lemma words_trim: "words (trim u) = words u"
proof -
  define u1 where "u1 = dropWhile is_space u"
  have "u1 = rev (dropWhile is_space (rev u1)) @ rev (takeWhile is_space (rev u1))"
    by (metis rev_append rev_rev_ident takeWhile_dropWhile_id)
  moreover have "\<forall>c \<in> set (rev (takeWhile is_space (rev u1))). is_space c"
    by (auto dest: set_takeWhileD)
  ultimately have "words u1 = words (rev (dropWhile is_space (rev u1)))"
    unfolding words_def by (metis words_from_trailing)
  then show ?thesis
    by (simp add: trim_def u1_def words_dropWhile)
qed

lemma split_ws_more:
  assumes "dropWhile (\<lambda>c. \<not> is_space c) t \<noteq> []"
  shows "split_ws t = takeWhile (\<lambda>c. \<not> is_space c) t # split_ws (dropWhile is_space (dropWhile (\<lambda>c. \<not> is_space c) t))"
proof -
  have "split_ws t = (let w = takeWhile (\<lambda>c. \<not> is_space c) t; r = dropWhile (\<lambda>c. \<not> is_space c) t
      in if r = [] then [w] else w # split_ws (dropWhile is_space r))"
    by (rule split_ws.simps)
  then show ?thesis using assms by (simp only: Let_def if_False)
qed

lemma split_ws_last:
  assumes "dropWhile (\<lambda>c. \<not> is_space c) t = []"
  shows "split_ws t = [takeWhile (\<lambda>c. \<not> is_space c) t]"
proof -
  have "split_ws t = (let w = takeWhile (\<lambda>c. \<not> is_space c) t; r = dropWhile (\<lambda>c. \<not> is_space c) t
      in if r = [] then [w] else w # split_ws (dropWhile is_space r))"
    by (rule split_ws.simps)
  then show ?thesis using assms by (simp only: Let_def simp_thms if_True)
qed

lemma split_ws_words:
  "t \<noteq> [] \<Longrightarrow> \<not> is_space (hd t) \<Longrightarrow> \<not> is_space (last t) \<Longrightarrow> split_ws t = words t"
proof (induction t rule: length_induct)
  case (1 t)
  define w where "w = takeWhile (\<lambda>c. \<not> is_space c) t"
  define r where "r = dropWhile (\<lambda>c. \<not> is_space c) t"
  have t: "t = w @ r" by (simp add: w_def r_def)
  have wns: "\<forall>c \<in> set w. \<not> is_space c" unfolding w_def by (auto dest: set_takeWhileD)
  from 1(2,3) have wne: "w \<noteq> []" unfolding w_def by (cases t) auto
  show ?case
  proof (cases "r = []")
    case True
    with t wns wne have "words t = [w]" by (simp add: words_no_space)
    moreover from True have "split_ws t = [w]"
      unfolding w_def r_def by (rule split_ws_last)
    ultimately show ?thesis by simp
  next
    case False
    note False [unfolded r_def]
    then have "\<not> \<not> is_space (hd (dropWhile (\<lambda>c. \<not> is_space c) t))" by (rule hd_dropWhile)
    then have hr: "is_space (hd r)" by (simp only: r_def not_not)
    from False obtain c r' where r: "r = c # r'" using list.exhaust by blast
    from hr have sp: "is_space c" unfolding r list.sel .
    define t2 where "t2 = dropWhile is_space r"
    have st: "split_ws t = w # split_ws t2"
      using False unfolding w_def r_def t2_def by (rule split_ws_more)
    have "words t = words w @ words r'" unfolding t r by (rule words_append_space [OF sp])
    also have "words w = [w]" using wne wns by (rule words_no_space)
    also have "words r' = words t2" using sp by (simp add: t2_def r words_dropWhile)
    finally have wt: "words t = w # words t2" by simp
    from False t have lr: "last r = last t" by simp
    with 1(4) have "\<not> is_space (last r)" by simp
    with False have "\<exists>x \<in> set r. \<not> is_space x" using last_in_set by blast
    then have ne2: "t2 \<noteq> []" unfolding t2_def by (simp add: dropWhile_eq_Nil_conv)
    then have hd2: "\<not> is_space (hd t2)" unfolding t2_def using hd_dropWhile by blast
    have "last t2 = last r" unfolding t2_def using ne2 [unfolded t2_def]
      by (metis append_Nil2 last_appendR takeWhile_dropWhile_id)
    with lr 1(4) have l2: "\<not> is_space (last t2)" by simp
    have "length t2 < length t"
      unfolding t2_def t using length_dropWhile_le [of is_space r] wne by (cases w) simp_all
    with 1(1) ne2 hd2 l2 have "split_ws t2 = words t2" by blast
    with st wt show ?thesis by simp
  qed
qed

lemma tokenize_words:
  "tokenize s = (let ws = words (replace_all (CHR '')'') '' ) '' (replace_all (CHR ''('') '' ( '' s))
                 in if ws = [] then [[]] else ws)"
proof -
  define u where "u = replace_all (CHR '')'') '' ) '' (replace_all (CHR ''('') '' ( '' s)"
  define t where "t = trim u"
  have w: "words t = words u" unfolding t_def by (rule words_trim)
  show ?thesis
  proof (cases "t = []")
    case True
    then have "split_ws t = [[]]" using split_ws_last [of "[]"] by simp
    with True w show ?thesis by (simp add: tokenize_def u_def t_def Let_def)
  next
    case False
    define u1 where "u1 = dropWhile is_space u"
    have tt: "t = rev (dropWhile is_space (rev u1))" by (simp add: t_def trim_def u1_def)
    from False have "dropWhile is_space (rev u1) \<noteq> []" by (simp add: tt)
    then have "\<not> is_space (hd (dropWhile is_space (rev u1)))" using hd_dropWhile by blast
    with False have l: "\<not> is_space (last t)" by (simp add: tt last_rev)
    have "u1 = t @ rev (takeWhile is_space (rev u1))"
      unfolding tt by (metis rev_append rev_rev_ident takeWhile_dropWhile_id)
    with False have "hd u1 = hd t" by (metis hd_append2)
    moreover from False have "u1 \<noteq> []" by (auto simp: tt)
    then have "\<not> is_space (hd u1)" unfolding u1_def using hd_dropWhile by blast
    ultimately have h: "\<not> is_space (hd t)" by simp
    from split_ws_words [OF False h l] have "split_ws t = words t" .
    moreover have "split_ws t \<noteq> []"
      using split_ws_last [of t] split_ws_more [of t] by (cases "dropWhile (\<lambda>c. \<not> is_space c) t = []") simp_all
    ultimately show ?thesis using w by (simp add: tokenize_def u_def t_def Let_def)
  qed
qed


subsection \<open>Printing what was parsed\<close>

lemma digit_char_props:
  assumes "d < 10"
  shows "is_digit (digit_char d)" and "of_char (digit_char d) - 48 = d"
proof -
  from assms have "d \<in> {0, 1, 2, 3, 4, 5, 6, 7, 8, 9}" by auto
  then show "is_digit (digit_char d)" and "of_char (digit_char d) - 48 = d"
    by (auto simp: digit_char_def is_digit_def)
qed

lemma digits_value_snoc: "digits_value (ds @ [c]) = 10 * digits_value ds + (of_char c - 48)"
  by (simp add: digits_value_def)

lemma digits_of_props:
  "all_digits (digits_of n) \<and> digits_of n \<noteq> [] \<and> digits_value (digits_of n) = n"
proof (induction n rule: digits_of.induct)
  case (1 n)
  show ?case
  proof (cases "n < 10")
    case True
    then show ?thesis
      by (subst (1 2 3) digits_of.simps) (simp add: all_digits_def digit_char_props digits_value_def)
  next
    case False
    have m: "n mod 10 < 10" by simp
    from 1 [OF False] False show ?thesis
      by (subst (1 2 3) digits_of.simps)
         (simp add: all_digits_def digit_char_props [OF m] digits_value_snoc)
  qed
qed


lemma replace_all_append: "replace_all c r (a @ b) = replace_all c r a @ replace_all c r b"
  by (simp add: replace_all_def)

lemma pad_append: "pad (a @ b) = pad a @ pad b"
  by (simp add: pad_def replace_all_append)

lemma replace_all_absent: "c \<notin> set a \<Longrightarrow> replace_all c r a = a"
  by (induction a) (auto simp: replace_all_def)

lemma pad_plain:
  assumes "\<forall>c \<in> set a. c \<noteq> CHR ''('' \<and> c \<noteq> CHR '')''"
  shows "pad a = a"
proof -
  from assms have "CHR ''('' \<notin> set a" "CHR '')'' \<notin> set a" by auto
  then show ?thesis by (simp add: pad_def replace_all_absent)
qed

lemma pad_chars:
  "pad ''('' = '' ( ''" "pad '')'' = '' ) ''" "pad '' '' = '' ''"
  by (simp_all add: pad_def replace_all_def)

lemma pad_Nil [simp]: "pad [] = []"
  by (simp add: pad_def replace_all_def)

lemma pad_space_Cons: "pad (CHR '' '' # s) = CHR '' '' # pad s"
  using pad_append [of "'' ''" s] by (simp add: pad_chars)

lemma pad_join: "pad (join '' '' xs) = join '' '' (map pad xs)"
  by (induction xs rule: induct_list012) (simp_all add: pad_append pad_space_Cons)

lemma space_is_space: "is_space (CHR '' '')"
  by (simp add: is_space_def)

lemma words_join: "words (join '' '' ys) = concat (map words ys)"
proof (induction ys rule: induct_list012)
  case (3 x y ys)
  have "words (x @ CHR '' '' # join '' '' (y # ys)) = words x @ words (join '' '' (y # ys))"
    by (rule words_append_space [OF space_is_space])
  with 3 show ?case by simp
qed simp_all

lemma words_paren: "words ''('' = [''('']" "words '')'' = ['')'']"
  by (simp_all add: words_def is_space_def)

lemma tokens_of_list:
  "tokens_of (''('' @ join '' '' xs @ '')'') = ''('' # concat (map tokens_of xs) @ ['')'']"
proof -
  let ?j = "join '' '' (map pad xs)"
  have "pad (''('' @ join '' '' xs @ '')'') = pad ''('' @ pad (join '' '' xs) @ pad '')''"
    by (simp only: pad_append)
  also have "\<dots> = '' ( '' @ ?j @ '' ) ''"
    by (simp only: pad_chars pad_join)
  also have "\<dots> = [] @ CHR '' '' # (''('' @ CHR '' '' # (?j @ CHR '' '' # ('')'' @ CHR '' '' # [])))"
    by simp
  finally have "tokens_of (''('' @ join '' '' xs @ '')'') = words [] @ words ''('' @ words ?j @ words '')'' @ words []"
    unfolding tokens_of_def by (simp only: words_append_space [OF space_is_space])
  then show ?thesis
    by (simp add: words_paren words_join tokens_of_def [abs_def] comp_def)
qed

lemma tokens_of_plain: "plain_token a \<Longrightarrow> tokens_of a = [a]"
  by (simp add: plain_token_def tokens_of_def pad_plain words_no_space)

lemma parse_plain_token:
  assumes "plain_token a"
  shows "parseExpression (Suc f) (pre @ a # post) (length pre) = Some (Inr (parseAtom a, length pre + 1))"
proof -
  have "a \<noteq> ''(''"
  proof
    assume "a = ''(''"
    with assms show False by (simp add: plain_token_def)
  qed
  moreover have "a \<noteq> '')''"
  proof
    assume "a = '')''"
    with assms show False by (simp add: plain_token_def)
  qed
  moreover from assms have "a \<noteq> [CHR 0x27]" by (simp add: plain_token_def)
  ultimately show ?thesis by (simp add: token_at_def del: parseList.simps)
qed

lemma parses_plain:
  assumes "plain_token a"
  shows "parses a (parseAtom a)"
  unfolding parses_def tokens_of_plain [OF assms]
proof (intro allI exI)
  fix pre post
  show "parseExpression (Suc 0) (pre @ [a] @ post) (length pre)
          = Some (Inr (parseAtom a, length pre + length [a]))"
    using parse_plain_token [OF assms, of 0 pre post] by (simp del: parseExpression.simps)
qed

lemma parseExpression_Inr_token:
  "parseExpression f ts pos = Some (Inr r) \<Longrightarrow> token_at ts pos \<noteq> None \<and> token_at ts pos \<noteq> Some '')''"
  by (cases f) (auto split: option.splits if_splits)

lemma parses_list:
  assumes "list_all2 parses xs vs"
  shows "\<exists>f. parseList f (pre @ concat (map tokens_of xs) @ '')'' # post) (length pre) acc
              = Some (Inr (acc @ vs, length pre + length (concat (map tokens_of xs))))"
  using assms
proof (induction arbitrary: pre acc rule: list_all2_induct)
  case Nil
  have "parseList (Suc 0) (pre @ concat (map tokens_of []) @ '')'' # post) (length pre) acc
          = Some (Inr (acc @ [], length pre + length (concat (map tokens_of []))))"
    by (simp add: token_at_def)
  then show ?case by (rule exI)
next
  case (Cons x xs v vs)
  let ?rest = "concat (map tokens_of xs) @ '')'' # post"
  let ?ts = "pre @ tokens_of x @ ?rest"
  from Cons.hyps(1) obtain f1 where
    f1: "parseExpression f1 ?ts (length pre) = Some (Inr (v, length pre + length (tokens_of x)))"
    unfolding parses_def by blast
  from Cons.IH [of "pre @ tokens_of x" "acc @ [v]"] obtain f2 where
    f2: "parseList f2 ?ts (length pre + length (tokens_of x)) (acc @ [v])
           = Some (Inr (acc @ v # vs, length pre + length (tokens_of x) + length (concat (map tokens_of xs))))"
    by auto
  from f1 parse_fuel_mono [of f1 ?ts f2]
  have g1: "parseExpression (f1 + f2) ?ts (length pre) = Some (Inr (v, length pre + length (tokens_of x)))"
    by blast
  from f2 parse_fuel_mono [of f2 ?ts f1]
  have g2: "parseList (f1 + f2) ?ts (length pre + length (tokens_of x)) (acc @ [v])
           = Some (Inr (acc @ v # vs, length pre + length (tokens_of x) + length (concat (map tokens_of xs))))"
    by (simp add: add.commute)
  from parseExpression_Inr_token [OF f1]
  have t: "token_at ?ts (length pre) \<noteq> None" "token_at ?ts (length pre) \<noteq> Some '')''" by auto
  have "parseList (Suc (f1 + f2)) ?ts (length pre) acc
          = Some (Inr (acc @ v # vs, length pre + length (tokens_of x) + length (concat (map tokens_of xs))))"
    using t g1 g2 by (simp del: parseExpression.simps)
  then have "parseList (Suc (f1 + f2)) (pre @ concat (map tokens_of (x # xs)) @ '')'' # post) (length pre) acc
          = Some (Inr (acc @ v # vs, length pre + length (concat (map tokens_of (x # xs)))))"
    by (simp add: add.assoc del: parseList.simps)
  then show ?case by (rule exI)
qed


lemma linkedListToArray_arrayToLinkedList: "linkedListToArray (arrayToLinkedList vs) = vs"
  by (induction vs) simp_all

lemma those_map_Some: "those (map Some xs) = Some xs"
  by (induction xs) simp_all

lemma printExpr_list:
  assumes "vs \<noteq> []" and "list_all2 (\<lambda>x v. printExpr v = Some x) xs vs"
  shows "printExpr (arrayToLinkedList vs) = Some (''('' @ join '' '' xs @ '')'')"
proof -
  from assms(2) have m: "map printExpr vs = map Some xs"
    by (induction rule: list_all2_induct) simp_all
  from assms(1) obtain a d where p: "arrayToLinkedList vs = Pair a d" by (cases vs) auto
  have "linkedListToArray (Pair a d) = vs"
    using linkedListToArray_arrayToLinkedList [of vs] by (simp only: p)
  then show ?thesis
    unfolding p by (subst printExpr.simps) (simp add: m those_map_Some)
qed

lemma parses_list_expr:
  assumes "list_all2 parses xs vs"
  shows "parses (''('' @ join '' '' xs @ '')'') (arrayToLinkedList vs)"
  unfolding parses_def tokens_of_list
proof (intro allI)
  fix pre post
  let ?c = "concat (map tokens_of xs)"
  from parses_list [OF assms, of "pre @ [''('']" post "[]"] obtain f where
    f: "parseList f (pre @ ''('' # ?c @ '')'' # post) (length pre + 1) []
          = Some (Inr (vs, length pre + 1 + length ?c))"
    by auto
  have "parseExpression (Suc f) (pre @ (''('' # ?c @ ['')'']) @ post) (length pre)
          = Some (Inr (arrayToLinkedList vs, length pre + length (''('' # ?c @ ['')''])))"
    using f by (simp add: token_at_def del: parseList.simps)
  then show "\<exists>f. parseExpression f (pre @ (''('' # ?c @ ['')'']) @ post) (length pre)
          = Some (Inr (arrayToLinkedList vs, length pre + length (''('' # ?c @ ['')''])))"
    by (rule exI)
qed

lemma digit_plain: "is_digit c \<Longrightarrow> \<not> is_space c \<and> c \<noteq> CHR ''('' \<and> c \<noteq> CHR '')'' \<and> c \<noteq> CHR 0x27"
  by (auto simp: is_digit_def is_space_def)

lemma plain_token_digits: "plain_token (digits_of n)" "plain_token (CHR ''-'' # digits_of n)"
proof -
  from digits_of_props [of n] have d: "all_digits (digits_of n)" "digits_of n \<noteq> []" by auto
  then have h: "is_digit (hd (digits_of n))" by (cases "digits_of n") (auto simp: all_digits_def)
  have q: "digits_of n \<noteq> [CHR 0x27]"
  proof
    assume "digits_of n = [CHR 0x27]"
    with h show False by (simp add: is_digit_def)
  qed
  have c: "\<forall>c \<in> set (digits_of n). \<not> is_space c \<and> c \<noteq> CHR ''('' \<and> c \<noteq> CHR '')''"
    using d(1) digit_plain unfolding all_digits_def by blast
  from d(2) q c show "plain_token (digits_of n)"
    unfolding plain_token_def by blast
  have m: "\<not> is_space (CHR ''-'')" by (simp add: is_space_def)
  have "\<forall>c \<in> set (CHR ''-'' # digits_of n). \<not> is_space c \<and> c \<noteq> CHR ''('' \<and> c \<noteq> CHR '')''"
    using c m by simp
  moreover have "CHR ''-'' # digits_of n \<noteq> [CHR 0x27]" by simp
  moreover have "CHR ''-'' # digits_of n \<noteq> []" by simp
  ultimately show "plain_token (CHR ''-'' # digits_of n)"
    unfolding plain_token_def by blast
qed

lemma parseAtom_digits:
  assumes "n < 2 ^ 53"
  shows "parseAtom (digits_of n) = Number (Fin (of_nat n))"
    and "0 < n \<Longrightarrow> parseAtom (CHR ''-'' # digits_of n) = Number (Fin (- of_nat n))"
proof -
  from digits_of_props [of n] have d: "all_digits (digits_of n)" "digits_of n \<noteq> []"
    "digits_value (digits_of n) = n" by auto
  have "int n < 2 ^ 53" using assms by simp
  then have "\<bar>int n\<bar> < 2 ^ 53" by simp
  from round64_int [OF this] have r: "round64 (rat_of_nat n) = Fin (rat_of_nat n)" by simp
  have e: "non_numeric_start []" by (simp add: non_numeric_start_def)
  let ?l = "\<lparr>l_sign = [], l_int = digits_of n, l_frac = None, l_exp = None\<rparr>"
  have "literal_wf ?l" using d by (simp add: literal_wf_def)
  from parseAtom_literal [OF this e] show "parseAtom (digits_of n) = Number (Fin (of_nat n))"
    by (simp add: literal_text_def exp_text_def literal_value_def unsigned_value_def d(3) pow10_def r)
  let ?m = "\<lparr>l_sign = ''-'', l_int = digits_of n, l_frac = None, l_exp = None\<rparr>"
  have "literal_wf ?m" using d by (simp add: literal_wf_def)
  from parseAtom_literal [OF this e]
  show "parseAtom (CHR ''-'' # digits_of n) = Number (Fin (- of_nat n))" if "0 < n"
    using that
    by (simp add: literal_text_def exp_text_def literal_value_def unsigned_value_def d(3) pow10_def r)
qed

lemma printExpr_integer:
  assumes "n < 2 ^ 53"
  shows "printExpr (Number (Fin (of_nat n))) = Some (digits_of n)"
    and "0 < n \<Longrightarrow> printExpr (Number (Fin (- of_nat n))) = Some (CHR ''-'' # digits_of n)"
proof -
  have b: "rat_of_nat n < 2 ^ 53" using assms
    by (metis of_nat_less_iff of_nat_numeral of_nat_power)
  show "printExpr (Number (Fin (of_nat n))) = Some (digits_of n)"
    using b by (subst printExpr.simps) (simp add: number_to_string_def)
  have f: "\<lfloor>- rat_of_nat n\<rfloor> = - int n"
    by (metis floor_of_int of_int_minus of_int_of_nat_eq)
  show "printExpr (Number (Fin (- of_nat n))) = Some (CHR ''-'' # digits_of n)" if "0 < n"
    using b that by (subst printExpr.simps) (simp add: number_to_string_def f)
qed


lemma ex_list_all2: "\<forall>x \<in> set xs. \<exists>v. Q x v \<Longrightarrow> \<exists>vs. list_all2 Q xs vs"
proof (induction xs)
  case Nil
  then show ?case by simp
next
  case (Cons x xs)
  then obtain v vs where "Q x v" "list_all2 Q xs vs" by auto
  then have "list_all2 Q (x # xs) (v # vs)" by simp
  then show ?case by blast
qed

lemma plain_token_booleans: "plain_token ''#t''" "plain_token ''#f''"
  by (simp_all add: plain_token_def is_space_def)

lemma canonical_parses:
  "canonical s \<Longrightarrow> tokens_of s \<noteq> [] \<and> (\<exists>v. printExpr v = Some s \<and> parses s v)"
proof (induction rule: canonical.induct)
  case (symbol a)
  then have p: "plain_token a" and "parseAtom a = Symbol a"
    by (simp_all add: canonical_symbol_def parseAtom_def)
  with parses_plain [OF p] have "printExpr (Symbol a) = Some a \<and> parses a (Symbol a)"
    by (simp add: printExpr.simps)
  with tokens_of_plain [OF p] show ?case by auto
next
  case true
  have "parseAtom ''#t'' = Boolean True" by (simp add: parseAtom_def)
  with parses_plain [OF plain_token_booleans(1)]
  have "printExpr (Boolean True) = Some ''#t'' \<and> parses ''#t'' (Boolean True)"
    by (simp add: printExpr.simps)
  with tokens_of_plain [OF plain_token_booleans(1)] show ?case by auto
next
  case false
  have "parseAtom ''#f'' = Boolean False" by (simp add: parseAtom_def)
  with parses_plain [OF plain_token_booleans(2)]
  have "printExpr (Boolean False) = Some ''#f'' \<and> parses ''#f'' (Boolean False)"
    by (simp add: printExpr.simps)
  with tokens_of_plain [OF plain_token_booleans(2)] show ?case by auto
next
  case (numeral n)
  from parses_plain [OF plain_token_digits(1) [of n]] parseAtom_digits(1) [OF numeral]
    printExpr_integer(1) [OF numeral]
  have "printExpr (Number (Fin (of_nat n))) = Some (digits_of n)
        \<and> parses (digits_of n) (Number (Fin (of_nat n)))" by simp
  with tokens_of_plain [OF plain_token_digits(1) [of n]] show ?case by auto
next
  case (negative n)
  from parses_plain [OF plain_token_digits(2) [of n]] parseAtom_digits(2) [OF negative(2,1)]
    printExpr_integer(2) [OF negative(2,1)]
  have "printExpr (Number (Fin (- of_nat n))) = Some (CHR ''-'' # digits_of n)
        \<and> parses (CHR ''-'' # digits_of n) (Number (Fin (- of_nat n)))" by simp
  with tokens_of_plain [OF plain_token_digits(2) [of n]] show ?case by auto
next
  case (list xs)
  then have "\<forall>x \<in> set xs. \<exists>v. printExpr v = Some x \<and> parses x v" by blast
  from ex_list_all2 [OF this] obtain vs where
    vs: "list_all2 (\<lambda>x v. printExpr v = Some x \<and> parses x v) xs vs" by blast
  then have pr: "list_all2 (\<lambda>x v. printExpr v = Some x) xs vs" and pa: "list_all2 parses xs vs"
    by (auto elim: list_all2_mono)
  from vs list(1) have ne: "vs \<noteq> []" by (auto simp: list_all2_Nil2)
  have "tokens_of (''('' @ join '' '' xs @ '')'') \<noteq> []"
    by (simp only: tokens_of_list) simp
  with printExpr_list [OF ne pr] parses_list_expr [OF pa]
  show ?case by blast
qed

lemma canonical_round_trip_aux:
  assumes "canonical s"
  shows "\<exists>v. parse s = Some (Inr v) \<and> printExpr v = Some s"
proof -
  from canonical_parses [OF assms] obtain v where
    t: "tokens_of s \<noteq> []" and p: "printExpr v = Some s" and q: "parses s v" by blast
  from t have tk: "tokenize s = tokens_of s"
    by (simp add: tokenize_words tokens_of_def pad_def Let_def)
  from q [unfolded parses_def, rule_format, of "[]" "[]"] obtain f where
    "parseExpression f (tokenize s) 0 = Some (Inr (v, length (tokenize s)))"
    by (auto simp: tk)
  from parse_result [OF this] have "parse s = Some (Inr v)" by simp
  with p show ?thesis by blast
qed

lemma parseFloat_plus: "parseFloat ''+'' = NaN"
  by (simp add: parseFloat_def str_unsigned_decimal_def is_space_def)

lemma canonical_examples: "canonical ''(+ 1 2)''" "canonical ''(lambda (x) x)''"
proof -
  have plus: "canonical ''+''"
    by (rule canonical.symbol) (simp add: canonical_symbol_def plain_token_def is_space_def parseFloat_plus)
  have one: "canonical ''1''" using canonical.numeral [of 1]
    by (simp add: digits_of.simps digit_char_def)
  have two: "canonical ''2''" using canonical.numeral [of 2]
    by (simp add: digits_of.simps digit_char_def)
  from canonical.list [of "[''+'', ''1'', ''2'']"] plus one two
  show "canonical ''(+ 1 2)''" by simp
  have nan: "parseFloat ''lambda'' = NaN" "parseFloat ''x'' = NaN"
    by (simp_all add: parseFloat_def str_unsigned_decimal_def is_space_def is_digit_def)
  have lam: "canonical ''lambda''"
    by (rule canonical.symbol) (simp add: canonical_symbol_def plain_token_def is_space_def nan)
  have x: "canonical ''x''"
    by (rule canonical.symbol) (simp add: canonical_symbol_def plain_token_def is_space_def nan)
  from canonical.list [of "[''x'']"] x have px: "canonical ''(x)''" by simp
  from canonical.list [of "[''lambda'', ''(x)'', ''x'']"] lam px x
  show "canonical ''(lambda (x) x)''" by simp
qed


text \<open>
  Claim C8, without the empty list. Every canonical input is parsed, and printing the
  result gives the input back.
\<close>

theorem canonical_print_parse:
  "canonical s \<Longrightarrow> \<exists>v. parse s = Some (Inr v) \<and> printExpr v = Some s"
  by (rule canonical_round_trip_aux)

text \<open>
  The inputs \<^verbatim>\<open>(+ 1 2)\<close> and \<^verbatim>\<open>(lambda (x) x)\<close> are canonical, and printing what
  they parse to reproduces them.
\<close>

theorem canonical_print_parse_witness:
  "canonical ''(+ 1 2)''
   \<and> parse ''(+ 1 2)''
       = Some (Inr (Pair (Symbol ''+'') (Pair (Number (Fin 1)) (Pair (Number (Fin 2)) Empty))))
   \<and> printExpr (Pair (Symbol ''+'') (Pair (Number (Fin 1)) (Pair (Number (Fin 2)) Empty)))
       = Some ''(+ 1 2)''
   \<and> canonical ''(lambda (x) x)''
   \<and> parse ''(lambda (x) x)''
       = Some (Inr (Pair (Symbol ''lambda'') (Pair (Pair (Symbol ''x'') Empty) (Pair (Symbol ''x'') Empty))))
   \<and> printExpr (Pair (Symbol ''lambda'') (Pair (Pair (Symbol ''x'') Empty) (Pair (Symbol ''x'') Empty)))
       = Some ''(lambda (x) x)''"
proof -
  have p1: "parse ''(+ 1 2)''
       = Some (Inr (Pair (Symbol ''+'') (Pair (Number (Fin 1)) (Pair (Number (Fin 2)) Empty))))"
    by (simp add: reader_eval)
  have p2: "parse ''(lambda (x) x)''
       = Some (Inr (Pair (Symbol ''lambda'') (Pair (Pair (Symbol ''x'') Empty) (Pair (Symbol ''x'') Empty))))"
    by (simp add: reader_eval)
  from canonical_print_parse [OF canonical_examples(1)] p1
  have "printExpr (Pair (Symbol ''+'') (Pair (Number (Fin 1)) (Pair (Number (Fin 2)) Empty)))
       = Some ''(+ 1 2)''" by auto
  moreover from canonical_print_parse [OF canonical_examples(2)] p2
  have "printExpr (Pair (Symbol ''lambda'') (Pair (Pair (Symbol ''x'') Empty) (Pair (Symbol ''x'') Empty)))
       = Some ''(lambda (x) x)''" by auto
  ultimately show ?thesis using p1 p2 canonical_examples by blast
qed

text \<open>
  Claim C8 as the specification states it fails at the empty list: \<^verbatim>\<open>()\<close> is parsed
  as \<^verbatim>\<open>null\<close>, which \<^verbatim>\<open>printExpr\<close> prints as \<^verbatim>\<open>null\<close>.
\<close>

theorem empty_list_prints_null_counterexample:
  "parse ''()'' = Some (Inr Empty) \<and> printExpr Empty = Some ''null'' \<and> ''null'' \<noteq> ''()''"
  by (simp add: reader_eval printExpr.simps)

end
